theory Spec2Isabelle
  imports Main "HOL-Library.Word"
begin

unbundle bit_operations_syntax

section \<open>Values, errors and collaborators\<close>

text \<open>
  A \<open>Uint8Array\<close> is a list of 8-bit words; a JavaScript \<open>bigint\<close> is an \<open>int\<close>.
  Every \<open>throw\<close> of the source is the \<open>Inl\<close> branch of a sum. The classes
  \<open>PublicKeyError\<close> and \<open>PrivateKeyError\<close> carry a message and a code (the second
  constructor argument); \<open>TypeError\<close>, \<open>SyntaxError\<close> and \<open>RangeError\<close> are the
  errors the JavaScript runtime itself raises, and \<open>LibraryError\<close> is whatever an
  external collaborator throws.
\<close>

type_synonym byte = "8 word"
type_synonym Bytes = "byte list"

datatype code =
    PUBLIC_KEY_CONSTRUCTOR_ERROR
  | DECODE_PUBLIC_KEY_ERROR
  | ENCODE_PUBLIC_KEY_ERROR
  | LIFT_X_ERROR
  | PRIVATE_KEY_CONSTRUCTOR_ERROR
  | GET_RAW_PRIVATE_KEY_ERROR
  | SET_PRIVATE_KEY_ERROR

datatype error =
    PublicKeyError string code
  | PrivateKeyError string code
  | TypeError
  | SyntaxError
  | RangeError
  | LibraryError

text \<open>Reading a typed array at an index: \<open>undefined\<close> (here \<open>None\<close>) out of range.\<close>

definition at_index :: "Bytes \<Rightarrow> nat \<Rightarrow> byte option" where
  "at_index bs i = (if i < length bs then Some (bs ! i) else None)"

text \<open>\<open>slice(start, end)\<close> and \<open>subarray(start, end)\<close> with non-negative
  arguments select the elements from \<open>start\<close> up to, not including, \<open>end\<close>, both
  clamped to the length.\<close>

definition slice :: "nat \<Rightarrow> nat \<Rightarrow> Bytes \<Rightarrow> Bytes" where
  "slice start stop bs = drop start (take stop bs)"

subsection \<open>bigint arithmetic\<close>

text \<open>The \<open>%\<close> of JavaScript truncates towards zero (the result has the sign of the
  dividend) and throws a \<open>RangeError\<close> on a zero divisor.\<close>

definition trunc_rem :: "int \<Rightarrow> int \<Rightarrow> int" where
  "trunc_rem a m = sgn a * (\<bar>a\<bar> mod \<bar>m\<bar>)"

definition js_rem :: "int \<Rightarrow> int \<Rightarrow> error + int" where
  "js_rem a m = (if m = 0 then Inl RangeError else Inr (trunc_rem a m))"

subsection \<open>Hexadecimal and decimal text\<close>

definition hex_digit :: "nat \<Rightarrow> char" where
  "hex_digit d = char_of (if d < 10 then 48 + d else 87 + d)"

definition hex_value :: "char \<Rightarrow> nat option" where
  "hex_value c =
     (let k = (of_char c :: nat) in
      if 48 \<le> k \<and> k \<le> 57 then Some (k - 48)
      else if 97 \<le> k \<and> k \<le> 102 then Some (k - 87)
      else if 65 \<le> k \<and> k \<le> 70 then Some (k - 55)
      else None)"

text \<open>\<open>Buffer.from(bytes).toString('hex')\<close>: two lower-case digits for each byte.\<close>

definition Buffer_toString_hex :: "Bytes \<Rightarrow> string" where
  "Buffer_toString_hex bs =
     concat (map (\<lambda>b. [hex_digit (unat b div 16), hex_digit (unat b mod 16)]) bs)"

fun hex_digits_value :: "int \<Rightarrow> string \<Rightarrow> int option" where
  "hex_digits_value acc [] = Some acc"
| "hex_digits_value acc (c # cs) =
     (case hex_value c of
        None \<Rightarrow> None
      | Some d \<Rightarrow> hex_digits_value (16 * acc + int d) cs)"

text \<open>\<open>BigInt('0x' + h)\<close>: the value of the hexadecimal digits \<open>h\<close>; a
  \<open>SyntaxError\<close> when \<open>h\<close> is empty or holds another character.\<close>

definition BigInt_0x :: "string \<Rightarrow> error + int" where
  "BigInt_0x h =
     (if h = [] then Inl SyntaxError
      else case hex_digits_value 0 h of
             None \<Rightarrow> Inl SyntaxError
           | Some v \<Rightarrow> Inr v)"

fun hex_of_nat :: "nat \<Rightarrow> string" where
  "hex_of_nat v =
     (if v < 16 then [hex_digit v] else hex_of_nat (v div 16) @ [hex_digit (v mod 16)])"

declare hex_of_nat.simps [simp del]

text \<open>\<open>y.toString(16)\<close> of a bigint.\<close>

definition toString16 :: "int \<Rightarrow> string" where
  "toString16 y = (if y < 0 then CHR ''-'' # hex_of_nat (nat (- y)) else hex_of_nat (nat y))"

definition padStart :: "string \<Rightarrow> nat \<Rightarrow> char \<Rightarrow> string" where
  "padStart s targetLength c = replicate (targetLength - length s) c @ s"

text \<open>\<open>Buffer.from(s, 'hex')\<close>: one byte for each pair of hexadecimal digits; decoding
  stops at the first pair that is not one, and a trailing single character is dropped.\<close>

fun Buffer_from_hex :: "string \<Rightarrow> Bytes" where
  "Buffer_from_hex (c1 # c2 # cs) =
     (case (hex_value c1, hex_value c2) of
        (Some h, Some l) \<Rightarrow> of_nat (16 * h + l) # Buffer_from_hex cs
      | _ \<Rightarrow> [])"
| "Buffer_from_hex _ = []"

fun dec_of_nat :: "nat \<Rightarrow> string" where
  "dec_of_nat v =
     (if v < 10 then [char_of (48 + v)] else dec_of_nat (v div 10) @ [char_of (48 + v mod 10)])"

declare dec_of_nat.simps [simp del]

fun join_comma :: "string list \<Rightarrow> string" where
  "join_comma [] = []"
| "join_comma [s] = s"
| "join_comma (s # t # ss) = s @ CHR '','' # join_comma (t # ss)"

text \<open>A typed array inside a template literal: its elements in decimal, joined by commas.\<close>

definition Uint8Array_toString :: "Bytes \<Rightarrow> string" where
  "Uint8Array_toString bs = join_comma (map (\<lambda>b. dec_of_nat (unat b)) bs)"

subsection \<open>Constants and collaborators\<close>

text \<open>
  \<open>constants.ts\<close> (\<open>CURVE\<close>, \<open>BIP340_MULTIKEY_PREFIX\<close>,
  \<open>BIP340_MULTIKEY_PREFIX_HASH\<close>) is not among the sources, and SHA-256, base-58 and
  \<open>tiny-secp256k1\<close> are external libraries. The functions below take them as
  parameters: the curve constants as a record, the codec's collaborators and constants
  as another, and \<open>tinysecp.isPrivate\<close> as a predicate on bytes.
\<close>

record curve =
  curve_p :: int
  curve_n :: int
  curve_b :: int

text \<open>
  Modelled from the spec: \<open>CURVE\<close> of \<open>constants.ts\<close>, which the spec describes as the
  secp256k1 parameters (the field prime \<open>p\<close>, the group order \<open>n\<close>, and \<open>b = 7\<close> in
  \<open>y\<^sup>2 = x\<^sup>3 + 7\<close>). The spec names the curve; the numbers are the curve's published
  parameters, \<open>p = 2\<^sup>2\<^sup>5\<^sup>6 - 2\<^sup>3\<^sup>2 - 977\<close>.
\<close>

definition secp256k1 :: curve where
  "secp256k1 =
     \<lparr>curve_p = 0xFFFFFFFFFFFFFFFFFFFFFFFFFFFFFFFFFFFFFFFFFFFFFFFFFFFFFFFEFFFFFC2F,
      curve_n = 0xFFFFFFFFFFFFFFFFFFFFFFFFFFFFFFFEBAAEDCE6AF48A03BBFD25E8CD0364141,
      curve_b = 7\<rparr>"

record codec =
  sha256 :: "Bytes \<Rightarrow> Bytes"
  base58btc_encode :: "Bytes \<Rightarrow> string"
  base58btc_decode :: "string \<Rightarrow> error + Bytes"
  BIP340_MULTIKEY_PREFIX :: Bytes
  BIP340_MULTIKEY_PREFIX_HASH :: string

section \<open>PublicKey (public-key.ts)\<close>

text \<open>The private field \<open>_bytes\<close> is \<open>pk_bytes\<close>.\<close>

record PublicKey =
  pk_bytes :: Bytes

definition PublicKey_constructor :: "Bytes \<Rightarrow> error + PublicKey" where
  "PublicKey_constructor bytes =
     (let bytelength = length bytes in
      if bytelength \<notin> {32, 33}
      then Inl (PublicKeyError
                  ''Invalid argument: byte length must be 32 (x-only) or 33 (compressed)''
                  PUBLIC_KEY_CONSTRUCTOR_ERROR)
      else Inr \<lparr>pk_bytes = (if bytelength = 32 then 0x02 # bytes else bytes)\<rparr>)"

definition PublicKey_bytes :: "PublicKey \<Rightarrow> Bytes" where
  "PublicKey_bytes k = pk_bytes k"

definition PublicKey_parity :: "PublicKey \<Rightarrow> byte option" where
  "PublicKey_parity k = (let parityb = at_index (PublicKey_bytes k) 0 in parityb)"

definition PublicKey_x :: "PublicKey \<Rightarrow> Bytes" where
  "PublicKey_x k = slice 1 33 (PublicKey_bytes k)"

definition PublicKey_encode :: "codec \<Rightarrow> PublicKey \<Rightarrow> error + string" where
  "PublicKey_encode E k =
     (let xCoordinate = PublicKey_x k in
      if length xCoordinate \<noteq> 32
      then Inl (PublicKeyError ''Invalid argument: must be x-only public key (32 bytes)''
                  ENCODE_PUBLIC_KEY_ERROR)
      else let multikeyBytes = BIP340_MULTIKEY_PREFIX E @ xCoordinate
           in Inr (base58btc_encode E multikeyBytes))"

definition PublicKey_multibase :: "codec \<Rightarrow> PublicKey \<Rightarrow> error + string" where
  "PublicKey_multibase E k = PublicKey_encode E k"

definition PublicKey_decode :: "codec \<Rightarrow> PublicKey \<Rightarrow> error + Bytes" where
  "PublicKey_decode E k =
     (case PublicKey_multibase E k of
        Inl e \<Rightarrow> Inl e
      | Inr s \<Rightarrow>
          (case base58btc_decode E s of
             Inl e \<Rightarrow> Inl e
           | Inr multibase \<Rightarrow>
               if length multibase \<noteq> 34
               then Inl (PublicKeyError ''Invalid argument: must be 34 byte publicKeyMultibase''
                           DECODE_PUBLIC_KEY_ERROR)
               else let prefix = slice 0 2 multibase;
                        prefixHash = Buffer_toString_hex (sha256 E prefix)
                    in if prefixHash \<noteq> BIP340_MULTIKEY_PREFIX_HASH E
                       then Inl (PublicKeyError
                                   (''Invalid prefix: malformed multibase prefix ''
                                      @ Uint8Array_toString prefix)
                                   DECODE_PUBLIC_KEY_ERROR)
                       else Inr multibase))"

definition PublicKey_prefix :: "codec \<Rightarrow> PublicKey \<Rightarrow> error + Bytes" where
  "PublicKey_prefix E k = PublicKey_decode E k"

section \<open>PublicKeyUtils (public-key.ts)\<close>

text \<open>The \<open>while\<close> loop of \<open>modPow\<close>, on its three variables; \<open>exp & 1n\<close> is truthy
  when it is not \<open>0n\<close>, and \<open>exp >>= 1n\<close> drops the lowest bit.\<close>

function modPow_while :: "int \<Rightarrow> int \<Rightarrow> int \<Rightarrow> int \<Rightarrow> error + int" where
  "modPow_while result base exp m =
     (if exp > 0
      then (case (if exp AND 1 \<noteq> 0 then js_rem (result * base) m else Inr result) of
              Inl e \<Rightarrow> Inl e
            | Inr result' \<Rightarrow>
                (case js_rem (base * base) m of
                   Inl e \<Rightarrow> Inl e
                 | Inr base' \<Rightarrow> modPow_while result' base' (drop_bit 1 exp) m))
      else Inr result)"
  by pat_completeness auto
termination
  by (relation "measure (\<lambda>(result, base, exp, m). nat exp)")
     (auto simp: drop_bit_eq_div)

declare modPow_while.simps [simp del]

definition modPow :: "int \<Rightarrow> int \<Rightarrow> int \<Rightarrow> error + int" where
  "modPow base exp m = modPow_while 1 base exp m"

definition sqrtMod :: "int \<Rightarrow> int \<Rightarrow> error + int" where
  "sqrtMod a p = modPow a (drop_bit 2 (p + 1)) p"

definition liftX :: "curve \<Rightarrow> Bytes \<Rightarrow> error + Bytes" where
  "liftX C xBytes =
     (if length xBytes \<noteq> 32
      then Inl (PublicKeyError ''Invalid argument: x-coordinate length must be 32 bytes''
                  LIFT_X_ERROR)
      else case BigInt_0x (Buffer_toString_hex xBytes) of
             Inl e \<Rightarrow> Inl e
           | Inr x \<Rightarrow>
               if x \<le> 0 \<or> x \<ge> curve_p C
               then Inl (PublicKeyError ''Invalid conversion: x out of range as BigInt''
                           LIFT_X_ERROR)
               else (case js_rem (x ^ 3 + curve_b C) (curve_p C) of
                       Inl e \<Rightarrow> Inl e
                     | Inr ySquared \<Rightarrow>
                         (case sqrtMod ySquared (curve_p C) of
                            Inl e \<Rightarrow> Inl e
                          | Inr y \<Rightarrow>
                              (let yBytes = Buffer_from_hex (padStart (toString16 y) 64 CHR ''0'')
                               in Inr (0x04 # xBytes @ yBytes)))))"

definition PublicKey_uncompressed :: "curve \<Rightarrow> PublicKey \<Rightarrow> error + Bytes" where
  "PublicKey_uncompressed C k = liftX C (PublicKey_x k)"

definition PublicKey_y :: "curve \<Rightarrow> PublicKey \<Rightarrow> error + Bytes" where
  "PublicKey_y C k =
     (case PublicKey_uncompressed C k of
        Inl e \<Rightarrow> Inl e
      | Inr u \<Rightarrow> Inr (slice 33 65 u))"

section \<open>PrivateKey (private-key.ts)\<close>

text \<open>
  The constructor's argument is a \<open>Uint8Array\<close> or a \<open>bigint\<close>, told apart at run
  time; TypeScript's casts (\<open>seed as PrivateKeyBytes\<close>) are erased by the compiler and
  change nothing. So the private fields \<open>_bytes\<close> and \<open>_secret\<close> (here \<open>sk_bytes\<close> and
  \<open>sk_secret\<close>) hold a value of either kind, or \<open>undefined\<close>.
\<close>

datatype PrivateKeySeed = Undefined | Uint8Array Bytes | BigInt int

record PrivateKey =
  sk_bytes :: PrivateKeySeed
  sk_secret :: PrivateKeySeed

text \<open>\<open>!v\<close>: \<open>undefined\<close> and \<open>0n\<close> are falsy, every object is truthy.\<close>

fun falsy :: "PrivateKeySeed \<Rightarrow> bool" where
  "falsy Undefined = True"
| "falsy (Uint8Array bs) = False"
| "falsy (BigInt s) = (s = 0)"

text \<open>\<open>a ?? b\<close> evaluates \<open>b\<close> only when \<open>a\<close> is \<open>null\<close> or \<open>undefined\<close>.\<close>

definition nullish_coalesce ::
  "PrivateKeySeed \<Rightarrow> (error + PrivateKeySeed) \<Rightarrow> error + PrivateKeySeed" where
  "nullish_coalesce a b = (if a = Undefined then b else Inr a)"

definition toSecret :: "Bytes \<Rightarrow> int" where
  "toSecret bytes = foldl (\<lambda>acc byte. push_bit 8 acc OR uint byte) 0 bytes"

definition toBytes :: "(Bytes \<Rightarrow> bool) \<Rightarrow> int \<Rightarrow> error + Bytes" where
  "toBytes isPrivate secret =
     (let bytes = map (\<lambda>i. word_of_int (drop_bit (8 * (31 - i)) secret AND 0xff)) [0..<32]
      in if \<not> isPrivate bytes
         then Inl (PrivateKeyError ''Invalid private key: secret out of valid range''
                     SET_PRIVATE_KEY_ERROR)
         else Inr bytes)"

text \<open>The two conversions applied to a run-time value of the other kind: \<open>>>\<close> between a
  non-bigint and a bigint, and \<open>reduce\<close> on a value that has no such method, throw a
  \<open>TypeError\<close>.\<close>

fun toBytes_of :: "(Bytes \<Rightarrow> bool) \<Rightarrow> PrivateKeySeed \<Rightarrow> error + PrivateKeySeed" where
  "toBytes_of isPrivate (BigInt s) =
     (case toBytes isPrivate s of Inl e \<Rightarrow> Inl e | Inr bs \<Rightarrow> Inr (Uint8Array bs))"
| "toBytes_of isPrivate _ = Inl TypeError"

fun toSecret_of :: "PrivateKeySeed \<Rightarrow> error + PrivateKeySeed" where
  "toSecret_of (Uint8Array bs) = Inr (BigInt (toSecret bs))"
| "toSecret_of _ = Inl TypeError"

definition PrivateKey_constructor ::
  "(Bytes \<Rightarrow> bool) \<Rightarrow> curve \<Rightarrow> PrivateKeySeed \<Rightarrow> error + PrivateKey" where
  "PrivateKey_constructor isPrivate C seed =
     (if falsy seed
      then Inl (PrivateKeyError
                  ''Invalid argument: must provide a 32-byte private key or a bigint secret''
                  PRIVATE_KEY_CONSTRUCTOR_ERROR)
      else if (case seed of Uint8Array bs \<Rightarrow> length bs \<noteq> 32 | _ \<Rightarrow> False)
      then Inl (PrivateKeyError ''Invalid argument: must provide a 32-byte private key''
                  PRIVATE_KEY_CONSTRUCTOR_ERROR)
      else if (case seed of BigInt s \<Rightarrow> s < 1 \<or> s \<ge> curve_n C | _ \<Rightarrow> False)
      then Inl (PrivateKeyError ''Invalid argument: secret out of valid range''
                  PRIVATE_KEY_CONSTRUCTOR_ERROR)
      else (let seedBytes = seed; seedSecret = seed in
            case nullish_coalesce seedBytes (toBytes_of isPrivate seedSecret) of
              Inl e \<Rightarrow> Inl e
            | Inr b \<Rightarrow>
                (case nullish_coalesce seedSecret (toSecret_of seedBytes) of
                   Inl e \<Rightarrow> Inl e
                 | Inr s \<Rightarrow> Inr \<lparr>sk_bytes = b, sk_secret = s\<rparr>)))"

text \<open>\<open>new Uint8Array(v)\<close>: a copy of a typed array, an empty array for \<open>undefined\<close>,
  and a \<open>TypeError\<close> for a bigint (the length conversion refuses it).\<close>

fun new_Uint8Array :: "PrivateKeySeed \<Rightarrow> error + Bytes" where
  "new_Uint8Array (Uint8Array bs) = Inr bs"
| "new_Uint8Array Undefined = Inr []"
| "new_Uint8Array (BigInt s) = Inl TypeError"

definition PrivateKey_bytes :: "PrivateKey \<Rightarrow> error + Bytes" where
  "PrivateKey_bytes k =
     (if falsy (sk_bytes k)
      then Inl (PrivateKeyError ''Missing variable: private key not set''
                  GET_RAW_PRIVATE_KEY_ERROR)
      else new_Uint8Array (sk_bytes k))"

text \<open>\<open>BigInt(v)\<close>: a bigint is returned as it is; a typed array is first turned into
  its text (the elements joined by commas), which is a bigint literal only when it has
  at most one element.\<close>

fun BigInt_of :: "PrivateKeySeed \<Rightarrow> error + int" where
  "BigInt_of (BigInt s) = Inr s"
| "BigInt_of (Uint8Array []) = Inr 0"
| "BigInt_of (Uint8Array [b]) = Inr (uint b)"
| "BigInt_of (Uint8Array (b # c # bs)) = Inl SyntaxError"
| "BigInt_of Undefined = Inl TypeError"

text \<open>The getter \<open>secret\<close> may assign \<open>_secret\<close>: it returns the value and the object.\<close>

definition PrivateKey_secret :: "PrivateKey \<Rightarrow> error + (int \<times> PrivateKey)" where
  "PrivateKey_secret k =
     (if falsy (sk_secret k)
      then (case PrivateKey_bytes k of
              Inl e \<Rightarrow> Inl e
            | Inr bs \<Rightarrow>
                (let k' = k\<lparr>sk_secret := BigInt (toSecret bs)\<rparr> in
                 case BigInt_of (sk_secret k') of
                   Inl e \<Rightarrow> Inl e
                 | Inr secret \<Rightarrow> Inr (secret, k')))
      else (case BigInt_of (sk_secret k) of
              Inl e \<Rightarrow> Inl e
            | Inr secret \<Rightarrow> Inr (secret, k)))"

section \<open>The same objects over a store of typed arrays\<close>

text \<open>
  A typed array is a mutable object, and a key object holds a reference to one. To
  state what a caller can observe by writing to an array, the constructors and byte
  getters are modelled a second time over an explicit store: the list of all typed
  arrays allocated so far, a reference being a position in it. \<open>new Uint8Array(...)\<close>
  and \<open>slice\<close> allocate; an assignment \<open>buf[i] = v\<close> updates the array in place and
  is ignored when \<open>i\<close> is out of range.
\<close>

type_synonym ref = nat
type_synonym store = "Bytes list"

definition deref :: "store \<Rightarrow> ref \<Rightarrow> Bytes" where
  "deref h r = (if r < length h then h ! r else [])"

definition alloc :: "Bytes \<Rightarrow> store \<Rightarrow> ref \<times> store" where
  "alloc bs h = (length h, h @ [bs])"

definition set_index :: "ref \<Rightarrow> nat \<times> byte \<Rightarrow> store \<Rightarrow> store" where
  "set_index r w h = (if r < length h then h[r := (h ! r)[fst w := snd w]] else h)"

text \<open>Any number of element assignments to the array at \<open>r\<close>.\<close>

definition mutate :: "ref \<Rightarrow> (nat \<times> byte) list \<Rightarrow> store \<Rightarrow> store" where
  "mutate r ws h = fold (set_index r) ws h"

record PublicKey_obj =
  pk_bytes_ref :: ref

definition PublicKey_constructor_st ::
  "ref \<Rightarrow> store \<Rightarrow> error + (PublicKey_obj \<times> store)" where
  "PublicKey_constructor_st bytes h =
     (let bytelength = length (deref h bytes) in
      if bytelength \<notin> {32, 33}
      then Inl (PublicKeyError
                  ''Invalid argument: byte length must be 32 (x-only) or 33 (compressed)''
                  PUBLIC_KEY_CONSTRUCTOR_ERROR)
      else if bytelength = 32
      then (let (r, h') = alloc (0x02 # deref h bytes) h in Inr (\<lparr>pk_bytes_ref = r\<rparr>, h'))
      else Inr (\<lparr>pk_bytes_ref = bytes\<rparr>, h))"

definition PublicKey_bytes_st :: "PublicKey_obj \<Rightarrow> store \<Rightarrow> ref \<times> store" where
  "PublicKey_bytes_st k h = alloc (deref h (pk_bytes_ref k)) h"

definition PublicKey_parity_st :: "PublicKey_obj \<Rightarrow> store \<Rightarrow> byte option \<times> store" where
  "PublicKey_parity_st k h =
     (let (r, h') = PublicKey_bytes_st k h; parityb = at_index (deref h' r) 0
      in (parityb, h'))"

definition PublicKey_x_st :: "PublicKey_obj \<Rightarrow> store \<Rightarrow> ref \<times> store" where
  "PublicKey_x_st k h =
     (let (r, h') = PublicKey_bytes_st k h in alloc (slice 1 33 (deref h' r)) h')"

datatype PrivateKeySeed_ref = UndefinedR | Uint8ArrayR ref | BigIntR int

record PrivateKey_obj =
  sk_bytes_ref :: PrivateKeySeed_ref
  sk_secret_ref :: PrivateKeySeed_ref

fun falsy_st :: "PrivateKeySeed_ref \<Rightarrow> bool" where
  "falsy_st UndefinedR = True"
| "falsy_st (Uint8ArrayR r) = False"
| "falsy_st (BigIntR s) = (s = 0)"

definition nullish_coalesce_st ::
  "PrivateKeySeed_ref \<Rightarrow> (error + (PrivateKeySeed_ref \<times> store)) \<Rightarrow> store
     \<Rightarrow> error + (PrivateKeySeed_ref \<times> store)" where
  "nullish_coalesce_st a b h = (if a = UndefinedR then b else Inr (a, h))"

fun toBytes_of_st ::
  "(Bytes \<Rightarrow> bool) \<Rightarrow> PrivateKeySeed_ref \<Rightarrow> store \<Rightarrow> error + (PrivateKeySeed_ref \<times> store)" where
  "toBytes_of_st isPrivate (BigIntR s) h =
     (case toBytes isPrivate s of
        Inl e \<Rightarrow> Inl e
      | Inr bs \<Rightarrow> (let (r, h') = alloc bs h in Inr (Uint8ArrayR r, h')))"
| "toBytes_of_st isPrivate _ h = Inl TypeError"

fun toSecret_of_st :: "PrivateKeySeed_ref \<Rightarrow> store \<Rightarrow> error + (PrivateKeySeed_ref \<times> store)" where
  "toSecret_of_st (Uint8ArrayR r) h = Inr (BigIntR (toSecret (deref h r)), h)"
| "toSecret_of_st _ h = Inl TypeError"

definition PrivateKey_constructor_st ::
  "(Bytes \<Rightarrow> bool) \<Rightarrow> curve \<Rightarrow> PrivateKeySeed_ref \<Rightarrow> store
     \<Rightarrow> error + (PrivateKey_obj \<times> store)" where
  "PrivateKey_constructor_st isPrivate C seed h =
     (if falsy_st seed
      then Inl (PrivateKeyError
                  ''Invalid argument: must provide a 32-byte private key or a bigint secret''
                  PRIVATE_KEY_CONSTRUCTOR_ERROR)
      else if (case seed of Uint8ArrayR r \<Rightarrow> length (deref h r) \<noteq> 32 | _ \<Rightarrow> False)
      then Inl (PrivateKeyError ''Invalid argument: must provide a 32-byte private key''
                  PRIVATE_KEY_CONSTRUCTOR_ERROR)
      else if (case seed of BigIntR s \<Rightarrow> s < 1 \<or> s \<ge> curve_n C | _ \<Rightarrow> False)
      then Inl (PrivateKeyError ''Invalid argument: secret out of valid range''
                  PRIVATE_KEY_CONSTRUCTOR_ERROR)
      else (let seedBytes = seed; seedSecret = seed in
            case nullish_coalesce_st seedBytes (toBytes_of_st isPrivate seedSecret h) h of
              Inl e \<Rightarrow> Inl e
            | Inr (b, h') \<Rightarrow>
                (case nullish_coalesce_st seedSecret (toSecret_of_st seedBytes h') h' of
                   Inl e \<Rightarrow> Inl e
                 | Inr (s, h'') \<Rightarrow> Inr (\<lparr>sk_bytes_ref = b, sk_secret_ref = s\<rparr>, h''))))"

fun new_Uint8Array_st :: "PrivateKeySeed_ref \<Rightarrow> store \<Rightarrow> error + (ref \<times> store)" where
  "new_Uint8Array_st (Uint8ArrayR r) h = Inr (alloc (deref h r) h)"
| "new_Uint8Array_st UndefinedR h = Inr (alloc [] h)"
| "new_Uint8Array_st (BigIntR s) h = Inl TypeError"

definition PrivateKey_bytes_st :: "PrivateKey_obj \<Rightarrow> store \<Rightarrow> error + (ref \<times> store)" where
  "PrivateKey_bytes_st k h =
     (if falsy_st (sk_bytes_ref k)
      then Inl (PrivateKeyError ''Missing variable: private key not set''
                  GET_RAW_PRIVATE_KEY_ERROR)
      else new_Uint8Array_st (sk_bytes_ref k) h)"

section \<open>Notions of the specification\<close>

text \<open>The big-endian integer value of a byte string, and the big-endian encoding of an
  integer on a given number of bytes.\<close>

definition be_value :: "Bytes \<Rightarrow> int" where
  "be_value bs = foldl (\<lambda>acc b. 256 * acc + uint b) 0 bs"

definition be_bytes :: "nat \<Rightarrow> int \<Rightarrow> Bytes" where
  "be_bytes len v = map (\<lambda>i. word_of_int (v div 256 ^ (len - 1 - i))) [0..<len]"

definition is_prime :: "int \<Rightarrow> bool" where
  "is_prime p \<longleftrightarrow> 1 < p \<and> (\<forall>d\<in>{2..<p}. \<not> d dvd p)"

text \<open>The \<open>k\<close> lowest hexadecimal digits of a number, most significant first.\<close>

fun hex_fixed :: "nat \<Rightarrow> nat \<Rightarrow> string" where
  "hex_fixed 0 v = []"
| "hex_fixed (Suc k) v = hex_fixed k (v div 16) @ [hex_digit (v mod 16)]"

text \<open>A small curve of the same shape, \<open>y\<^sup>2 = x\<^sup>3 + 7\<close> over the field of 103 elements
  (a prime that is 3 modulo 4; the curve has 111 points), to run \<open>liftX\<close> on.\<close>

definition example_curve :: curve where
  "example_curve = \<lparr>curve_p = 103, curve_n = 111, curve_b = 7\<rparr>"

text \<open>
  A stand-in for the collaborators and constants of the codec, to run the codec on
  concrete keys: the multibase character \<open>z\<close> followed by hexadecimal digits in place
  of base-58, and a byte-wise mask in place of SHA-256.
\<close>

definition example_codec :: codec where
  "example_codec =
     \<lparr>sha256 = map (\<lambda>b. b XOR 0x5c),
      base58btc_encode = (\<lambda>bs. CHR ''z'' # Buffer_toString_hex bs),
      base58btc_decode =
        (\<lambda>s. case s of
               [] \<Rightarrow> Inl LibraryError
             | c # h \<Rightarrow> if c = CHR ''z'' then Inr (Buffer_from_hex h) else Inl LibraryError),
      BIP340_MULTIKEY_PREFIX = [0xe7, 0x01],
      BIP340_MULTIKEY_PREFIX_HASH = ''bb5d''\<rparr>"

section \<open>Construction of a PublicKey\<close>

text \<open>
  Claim C8. Constructing a PublicKey from bytes whose length is neither 32 nor 33 fails
  with the constructor error; a 32-byte input is stored as the 33 bytes \<open>0x02 \<parallel> input\<close>;
  a 33-byte input is accepted and stored as it is.
\<close>

theorem PublicKey_constructor_by_length:
  "(length bytes \<notin> {32, 33} \<longrightarrow>
      PublicKey_constructor bytes =
        Inl (PublicKeyError
               ''Invalid argument: byte length must be 32 (x-only) or 33 (compressed)''
               PUBLIC_KEY_CONSTRUCTOR_ERROR))
   \<and> (length bytes = 32 \<longrightarrow>
        PublicKey_constructor bytes = Inr \<lparr>pk_bytes = 0x02 # bytes\<rparr>
        \<and> length (0x02 # bytes) = 33)
   \<and> (length bytes = 33 \<longrightarrow> PublicKey_constructor bytes = Inr \<lparr>pk_bytes = bytes\<rparr>)"
  by (simp add: PublicKey_constructor_def Let_def)

theorem PublicKey_constructor_by_length_witness:
  "PublicKey_constructor [] =
     Inl (PublicKeyError
            ''Invalid argument: byte length must be 32 (x-only) or 33 (compressed)''
            PUBLIC_KEY_CONSTRUCTOR_ERROR)
   \<and> PublicKey_constructor (replicate 32 0x11) = Inr \<lparr>pk_bytes = 0x02 # replicate 32 0x11\<rparr>
   \<and> PublicKey_constructor (replicate 33 0x03) = Inr \<lparr>pk_bytes = replicate 33 0x03\<rparr>"
  using PublicKey_constructor_by_length [of "[]"]
    PublicKey_constructor_by_length [of "replicate 32 0x11"]
    PublicKey_constructor_by_length [of "replicate 33 0x03"]
  by simp

text \<open>
  Claim C5, as the code has it. Every successfully constructed PublicKey stores 33
  bytes, one leading byte followed by the 32 bytes that the accessor \<open>x\<close> returns, and
  the accessor \<open>parity\<close> returns the leading byte. That byte is \<open>0x02\<close> when the input
  had 32 bytes; when the input had 33 bytes it is the input's own first byte, which the
  constructor does not inspect.
\<close>

theorem PublicKey_stored_encoding:
  assumes "PublicKey_constructor bytes = Inr k"
  shows "length (PublicKey_bytes k) = 33
     \<and> length (PublicKey_x k) = 32
     \<and> PublicKey_parity k = Some (if length bytes = 32 then 0x02 else hd bytes)
     \<and> PublicKey_bytes k = (if length bytes = 32 then 0x02 else hd bytes) # PublicKey_x k"
proof (cases "length bytes = 32")
  case True
  with assms have "pk_bytes k = 0x02 # bytes"
    by (auto simp: PublicKey_constructor_def Let_def)
  with True show ?thesis
    by (simp add: PublicKey_bytes_def PublicKey_parity_def PublicKey_x_def at_index_def
        slice_def)
next
  case False
  with assms have k: "pk_bytes k = bytes" and len: "length bytes = 33"
    by (auto simp: PublicKey_constructor_def Let_def split: if_splits)
  from len obtain b bs where bytes: "bytes = b # bs" and "length bs = 32"
    by (cases bytes) auto
  with k show ?thesis
    by (simp add: PublicKey_bytes_def PublicKey_parity_def PublicKey_x_def at_index_def
        slice_def)
qed

theorem PublicKey_stored_encoding_witness:
  "PublicKey_constructor (0x03 # replicate 32 0x11) = Inr \<lparr>pk_bytes = 0x03 # replicate 32 0x11\<rparr>
   \<and> PublicKey_parity \<lparr>pk_bytes = 0x03 # replicate 32 0x11\<rparr> = Some 0x03
   \<and> PublicKey_x \<lparr>pk_bytes = 0x03 # replicate 32 0x11\<rparr> = replicate 32 0x11"
proof -
  have c: "PublicKey_constructor (0x03 # replicate 32 0x11)
             = Inr \<lparr>pk_bytes = 0x03 # replicate 32 0x11\<rparr>"
    by (simp add: PublicKey_constructor_def)
  from PublicKey_stored_encoding [OF c] c show ?thesis
    by (simp add: PublicKey_bytes_def)
qed

text \<open>The constructor accepts 33 zero bytes, and the parity of the result is \<open>0x00\<close>,
  which is neither \<open>0x02\<close> nor \<open>0x03\<close>.\<close>

theorem PublicKey_parity_unchecked:
  "PublicKey_constructor (replicate 33 0x00) = Inr \<lparr>pk_bytes = replicate 33 0x00\<rparr>
   \<and> PublicKey_parity \<lparr>pk_bytes = replicate 33 0x00\<rparr> = Some 0x00
   \<and> (0x00 :: byte) \<noteq> 0x02 \<and> (0x00 :: byte) \<noteq> 0x03"
  by (simp add: PublicKey_constructor_def PublicKey_parity_def PublicKey_bytes_def at_index_def)

section \<open>Construction of a PrivateKey from a bigint\<close>

text \<open>
  For a bigint seed in range, the left operand of each \<open>??\<close> in the constructor is the
  seed itself, which is not nullish: neither conversion runs, and both fields hold the
  bigint. The getter \<open>bytes\<close> then passes a bigint to \<open>new Uint8Array\<close>.
\<close>

lemma PrivateKey_constructor_secret:
  assumes "1 \<le> s" "s < curve_n C"
  shows "PrivateKey_constructor isPrivate C (BigInt s) = Inr \<lparr>sk_bytes = BigInt s, sk_secret = BigInt s\<rparr>"
    and "PrivateKey_bytes \<lparr>sk_bytes = BigInt s, sk_secret = BigInt s\<rparr> = Inl TypeError"
  using assms
  by (simp_all add: PrivateKey_constructor_def nullish_coalesce_def PrivateKey_bytes_def Let_def)

text \<open>
  Claim C1, evaluated at the secret \<open>1\<close>: the constructor succeeds and the accessor
  \<open>secret\<close> returns \<open>1\<close>, but the accessor \<open>bytes\<close> throws a \<open>TypeError\<close> where the
  claim has it return the 32-byte big-endian encoding of the secret.
\<close>

theorem PrivateKey_secret_seed_bytes_TypeError:
  "PrivateKey_constructor isPrivate secp256k1 (BigInt 1)
     = Inr \<lparr>sk_bytes = BigInt 1, sk_secret = BigInt 1\<rparr>
   \<and> PrivateKey_bytes \<lparr>sk_bytes = BigInt 1, sk_secret = BigInt 1\<rparr> = Inl TypeError
   \<and> PrivateKey_secret \<lparr>sk_bytes = BigInt 1, sk_secret = BigInt 1\<rparr>
       = Inr (1, \<lparr>sk_bytes = BigInt 1, sk_secret = BigInt 1\<rparr>)"
  by (simp add: PrivateKey_constructor_def nullish_coalesce_def secp256k1_def
      PrivateKey_bytes_def PrivateKey_secret_def Let_def)

section \<open>The multikey codec\<close>

text \<open>The stand-in codec decodes what it encodes.\<close>

lemma hex_value_hex_digit: "d < 16 \<Longrightarrow> hex_value (hex_digit d) = Some d"
  by (auto simp: hex_value_def hex_digit_def Let_def)

lemma Buffer_from_hex_toString_hex: "Buffer_from_hex (Buffer_toString_hex bs) = bs"
proof (induction bs)
  case Nil
  show ?case by (simp add: Buffer_toString_hex_def)
next
  case (Cons b bs)
  have "unat b < 256" using unsigned_less [of b, where 'a = nat] by simp
  then have "unat b div 16 < 16" by simp
  moreover have "(of_nat (16 * (unat b div 16) + unat b mod 16) :: byte) = b"
    by simp
  ultimately show ?case using Cons
    by (simp add: Buffer_toString_hex_def hex_value_hex_digit)
qed

lemma example_codec_round_trip:
  assumes "base58btc_encode E = base58btc_encode example_codec"
    and "base58btc_decode E = base58btc_decode example_codec"
  shows "base58btc_decode E (base58btc_encode E bs) = Inr bs"
  using assms by (simp add: example_codec_def Buffer_from_hex_toString_hex)

text \<open>
  Claim C7. \<open>decode\<close> decodes the key's own multibase string. Whatever payload the
  base-58 decoder returns for it: when the payload is not exactly 34 bytes, \<open>decode\<close>
  fails with the decode error; when it is 34 bytes and the hexadecimal SHA-256 of its
  first two bytes differs from the expected prefix hash, \<open>decode\<close> fails with the decode
  error whose message is ``malformed multibase prefix'', whatever the other 32 bytes are.
\<close>

theorem PublicKey_decode_rejects:
  assumes "PublicKey_multibase E k = Inr s"
    and "base58btc_decode E s = Inr payload"
  shows "(length payload \<noteq> 34 \<longrightarrow>
            PublicKey_decode E k =
              Inl (PublicKeyError ''Invalid argument: must be 34 byte publicKeyMultibase''
                     DECODE_PUBLIC_KEY_ERROR))
       \<and> (length payload = 34
            \<and> Buffer_toString_hex (sha256 E (take 2 payload)) \<noteq> BIP340_MULTIKEY_PREFIX_HASH E \<longrightarrow>
            PublicKey_decode E k =
              Inl (PublicKeyError
                     (''Invalid prefix: malformed multibase prefix ''
                        @ Uint8Array_toString (take 2 payload))
                     DECODE_PUBLIC_KEY_ERROR))"
  using assms by (simp add: PublicKey_decode_def slice_def Let_def)

theorem PublicKey_decode_rejects_witness:
  "PublicKey_decode (example_codec\<lparr>BIP340_MULTIKEY_PREFIX := [0xe7, 0x01, 0x00]\<rparr>)
       \<lparr>pk_bytes = 0x02 # replicate 32 0x11\<rparr>
     = Inl (PublicKeyError ''Invalid argument: must be 34 byte publicKeyMultibase''
              DECODE_PUBLIC_KEY_ERROR)
   \<and> PublicKey_decode (example_codec\<lparr>BIP340_MULTIKEY_PREFIX := [0xe6, 0x01]\<rparr>)
       \<lparr>pk_bytes = 0x02 # replicate 32 0x11\<rparr>
     = Inl (PublicKeyError ''Invalid prefix: malformed multibase prefix 230,1''
              DECODE_PUBLIC_KEY_ERROR)"
proof -
  let ?k = "\<lparr>pk_bytes = 0x02 # replicate 32 0x11\<rparr>"
  let ?E1 = "example_codec\<lparr>BIP340_MULTIKEY_PREFIX := [0xe7, 0x01, 0x00]\<rparr>"
  let ?E2 = "example_codec\<lparr>BIP340_MULTIKEY_PREFIX := [0xe6, 0x01]\<rparr>"
  have m1: "PublicKey_multibase ?E1 ?k
              = Inr (CHR ''z'' # Buffer_toString_hex ([0xe7, 0x01, 0x00] @ replicate 32 0x11))"
    by (simp add: PublicKey_multibase_def PublicKey_encode_def PublicKey_x_def
        PublicKey_bytes_def slice_def example_codec_def)
  have d1: "base58btc_decode ?E1
              (CHR ''z'' # Buffer_toString_hex ([0xe7, 0x01, 0x00] @ replicate 32 0x11))
              = Inr ([0xe7, 0x01, 0x00] @ replicate 32 0x11)"
    using example_codec_round_trip [of ?E1] by (simp add: example_codec_def)
  have m2: "PublicKey_multibase ?E2 ?k
              = Inr (CHR ''z'' # Buffer_toString_hex ([0xe6, 0x01] @ replicate 32 0x11))"
    by (simp add: PublicKey_multibase_def PublicKey_encode_def PublicKey_x_def
        PublicKey_bytes_def slice_def example_codec_def)
  have d2: "base58btc_decode ?E2
              (CHR ''z'' # Buffer_toString_hex ([0xe6, 0x01] @ replicate 32 0x11))
              = Inr ([0xe6, 0x01] @ replicate 32 0x11)"
    using example_codec_round_trip [of ?E2] by (simp add: example_codec_def)
  have "Buffer_toString_hex (sha256 example_codec [0xe6, 0x01]) \<noteq> ''bb5d''"
    by code_simp
  then have h2: "Buffer_toString_hex (sha256 ?E2 (take 2 ([0xe6, 0x01] @ replicate 32 0x11)))
              \<noteq> BIP340_MULTIKEY_PREFIX_HASH ?E2"
    by (simp add: example_codec_def)
  have "Uint8Array_toString [0xe6, 0x01] = ''230,1''"
    by code_simp
  then have t2: "Uint8Array_toString (take 2 ([0xe6, 0x01] @ replicate 32 0x11)) = ''230,1''"
    by simp
  from PublicKey_decode_rejects [OF m1 d1] PublicKey_decode_rejects [OF m2 d2] h2 t2
  show ?thesis by simp
qed

text \<open>
  Claim C4. For every 32-byte x-only key \<open>x\<close>, the key constructed from \<open>x\<close> encodes to
  the base-58 text of \<open>prefix \<parallel> x\<close>, and decoding succeeds with exactly the 34 bytes
  \<open>prefix \<parallel> x\<close>. The constants and collaborators are parameters: the prefix has two
  bytes, the expected hash is the hexadecimal SHA-256 of the prefix, and the base-58
  decoder inverts the encoder on this payload.
\<close>

theorem multikey_round_trip:
  assumes "length x = 32"
    and "length (BIP340_MULTIKEY_PREFIX E) = 2"
    and "Buffer_toString_hex (sha256 E (BIP340_MULTIKEY_PREFIX E)) = BIP340_MULTIKEY_PREFIX_HASH E"
    and "base58btc_decode E (base58btc_encode E (BIP340_MULTIKEY_PREFIX E @ x))
           = Inr (BIP340_MULTIKEY_PREFIX E @ x)"
  shows "PublicKey_constructor x = Inr \<lparr>pk_bytes = 0x02 # x\<rparr>
       \<and> PublicKey_encode E \<lparr>pk_bytes = 0x02 # x\<rparr>
           = Inr (base58btc_encode E (BIP340_MULTIKEY_PREFIX E @ x))
       \<and> PublicKey_decode E \<lparr>pk_bytes = 0x02 # x\<rparr> = Inr (BIP340_MULTIKEY_PREFIX E @ x)
       \<and> length (BIP340_MULTIKEY_PREFIX E @ x) = 34"
proof -
  have x: "PublicKey_x \<lparr>pk_bytes = 0x02 # x\<rparr> = x"
    using assms(1) by (simp add: PublicKey_x_def PublicKey_bytes_def slice_def)
  have enc: "PublicKey_encode E \<lparr>pk_bytes = 0x02 # x\<rparr>
               = Inr (base58btc_encode E (BIP340_MULTIKEY_PREFIX E @ x))"
    using assms(1) by (simp add: PublicKey_encode_def x)
  have "PublicKey_decode E \<lparr>pk_bytes = 0x02 # x\<rparr> = Inr (BIP340_MULTIKEY_PREFIX E @ x)"
    using assms by (simp add: PublicKey_decode_def PublicKey_multibase_def enc slice_def)
  with enc assms show ?thesis
    by (simp add: PublicKey_constructor_def)
qed

theorem multikey_round_trip_witness:
  "PublicKey_decode example_codec \<lparr>pk_bytes = 0x02 # replicate 32 0x11\<rparr>
     = Inr ([0xe7, 0x01] @ replicate 32 0x11)"
proof -
  have 1: "length (replicate 32 (0x11 :: byte)) = 32" by simp
  have 2: "length (BIP340_MULTIKEY_PREFIX example_codec) = 2"
    by (simp add: example_codec_def)
  have 3: "Buffer_toString_hex (sha256 example_codec (BIP340_MULTIKEY_PREFIX example_codec))
             = BIP340_MULTIKEY_PREFIX_HASH example_codec"
    by code_simp
  have 4: "base58btc_decode example_codec
             (base58btc_encode example_codec
                (BIP340_MULTIKEY_PREFIX example_codec @ replicate 32 0x11))
             = Inr (BIP340_MULTIKEY_PREFIX example_codec @ replicate 32 0x11)"
    by (rule example_codec_round_trip) simp_all
  from multikey_round_trip [OF 1 2 3 4] show ?thesis
    by (simp add: example_codec_def)
qed

section \<open>Typed arrays shared between a key and its callers\<close>

text \<open>Facts about the store: assignments to one array leave the others alone, and an
  allocation leaves every earlier array alone. The constructors over the store agree
  with the constructors on values and return objects whose references are allocated.\<close>

lemma length_set_index [simp]: "length (set_index r w h) = length h"
  by (simp add: set_index_def)

lemma length_mutate [simp]: "length (mutate r ws h) = length h"
  unfolding mutate_def by (induction ws arbitrary: h) simp_all

lemma deref_set_index_other: "r' \<noteq> r \<Longrightarrow> deref (set_index r w h) r' = deref h r'"
  by (simp add: set_index_def deref_def)

lemma deref_mutate_other: "r' \<noteq> r \<Longrightarrow> deref (mutate r ws h) r' = deref h r'"
  unfolding mutate_def
  by (induction ws arbitrary: h) (simp_all add: deref_set_index_other)

lemma deref_alloc_old: "r < length h \<Longrightarrow> deref (h @ [bs]) r = deref h r"
  by (simp add: deref_def nth_append)

lemma deref_alloc_new: "r = length h \<Longrightarrow> deref (h @ [bs]) r = bs"
  by (simp add: deref_def)

lemma PublicKey_constructor_st_value:
  "PublicKey_constructor_st a h =
     (case PublicKey_constructor (deref h a) of
        Inl e \<Rightarrow> Inl e
      | Inr k \<Rightarrow>
          if length (deref h a) = 32
          then Inr (\<lparr>pk_bytes_ref = length h\<rparr>, h @ [pk_bytes k])
          else Inr (\<lparr>pk_bytes_ref = a\<rparr>, h))"
  by (simp add: PublicKey_constructor_st_def PublicKey_constructor_def alloc_def Let_def)

lemma PublicKey_bytes_st_value:
  assumes "PublicKey_bytes_st k h = (r, h1)"
  shows "deref h1 r = PublicKey_bytes \<lparr>pk_bytes = deref h (pk_bytes_ref k)\<rparr>"
  using assms by (auto simp: PublicKey_bytes_st_def PublicKey_bytes_def alloc_def deref_alloc_new)

lemma PublicKey_constructor_st_allocated:
  assumes "PublicKey_constructor_st a h = Inr (k, h')" and "a < length h"
  shows "pk_bytes_ref k < length h'"
  using assms
  by (auto simp: PublicKey_constructor_st_def Let_def alloc_def split: if_splits)

lemma PrivateKey_constructor_st_allocated:
  assumes "PrivateKey_constructor_st isPrivate C seed h = Inr (k, h')"
    and "\<forall>a. seed = Uint8ArrayR a \<longrightarrow> a < length h"
  shows "\<forall>a. sk_bytes_ref k = Uint8ArrayR a \<longrightarrow> a < length h'"
  using assms
  by (auto simp: PrivateKey_constructor_st_def Let_def nullish_coalesce_st_def
      split: if_splits PrivateKeySeed_ref.splits)

lemma PublicKey_bytes_st_result:
  assumes "pk_bytes_ref k < length h" and "PublicKey_bytes_st k h = (r, h1)"
  shows "deref h1 r = deref h (pk_bytes_ref k)" and "r \<noteq> pk_bytes_ref k"
    and "length h < length h1" and "deref h1 (pk_bytes_ref k) = deref h (pk_bytes_ref k)"
  using assms
  by (auto simp: PublicKey_bytes_st_def alloc_def deref_alloc_new deref_alloc_old)

lemma PublicKey_x_st_result:
  assumes "pk_bytes_ref k < length h" and "PublicKey_x_st k h = (r, h1)"
  shows "deref h1 r = slice 1 33 (deref h (pk_bytes_ref k))" and "r \<noteq> pk_bytes_ref k"
    and "length h < length h1" and "deref h1 (pk_bytes_ref k) = deref h (pk_bytes_ref k)"
proof -
  let ?a = "pk_bytes_ref k"
  let ?h0 = "h @ [deref h ?a]"
  have eq: "PublicKey_x_st k h = (Suc (length h), ?h0 @ [slice 1 33 (deref h ?a)])"
    by (simp add: PublicKey_x_st_def PublicKey_bytes_st_def alloc_def deref_alloc_new)
  with assms(2) have r: "r = length ?h0" and h1: "h1 = ?h0 @ [slice 1 33 (deref h ?a)]"
    by simp_all
  show "deref h1 r = slice 1 33 (deref h ?a)"
    unfolding r h1 by (rule deref_alloc_new) simp
  show "r \<noteq> ?a" using assms(1) r by simp
  show "length h < length h1" using h1 by simp
  have "deref h1 ?a = deref ?h0 ?a"
    unfolding h1 using assms(1) by (intro deref_alloc_old) simp
  also have "\<dots> = deref h ?a"
    using assms(1) by (rule deref_alloc_old)
  finally show "deref h1 ?a = deref h ?a" .
qed

lemma PrivateKey_bytes_st_result:
  assumes "sk_bytes_ref k = Uint8ArrayR a" and "a < length h"
  shows "PrivateKey_bytes_st k h = Inr (length h, h @ [deref h a])"
  using assms by (simp add: PrivateKey_bytes_st_def alloc_def)

text \<open>
  Claim C9. For a PublicKey and a PrivateKey whose arrays are in the store (as they are
  for every constructed key): after any assignments \<open>ws\<close> to the array that \<open>bytes\<close> or
  \<open>x\<close> of the PublicKey, or \<open>bytes\<close> of the PrivateKey, has returned, the key's own array
  is unchanged and calling the same getter again succeeds and returns an array with the
  bytes that the first call returned.
\<close>

theorem getters_return_copies:
  assumes "pk_bytes_ref pk < length h"
    and "\<forall>a. sk_bytes_ref sk = Uint8ArrayR a \<longrightarrow> a < length h"
  shows "(let (r, h1) = PublicKey_bytes_st pk h;
              h2 = mutate r ws h1;
              (r', h3) = PublicKey_bytes_st pk h2
          in deref h2 (pk_bytes_ref pk) = deref h (pk_bytes_ref pk)
             \<and> deref h3 r' = deref h1 r)
       \<and> (let (r, h1) = PublicKey_x_st pk h;
              h2 = mutate r ws h1;
              (r', h3) = PublicKey_x_st pk h2
          in deref h2 (pk_bytes_ref pk) = deref h (pk_bytes_ref pk)
             \<and> deref h3 r' = deref h1 r)
       \<and> (case PrivateKey_bytes_st sk h of
            Inl e \<Rightarrow> True
          | Inr (r, h1) \<Rightarrow>
              (case PrivateKey_bytes_st sk (mutate r ws h1) of
                 Inl e \<Rightarrow> False
               | Inr (r', h3) \<Rightarrow> deref h3 r' = deref h1 r))"
proof (intro conjI)
  let ?a = "pk_bytes_ref pk"
  obtain r h1 where g: "PublicKey_bytes_st pk h = (r, h1)"
    by (cases "PublicKey_bytes_st pk h")
  obtain r' h3 where g': "PublicKey_bytes_st pk (mutate r ws h1) = (r', h3)"
    by (cases "PublicKey_bytes_st pk (mutate r ws h1)")
  note first = PublicKey_bytes_st_result [OF assms(1) g]
  have kept: "deref (mutate r ws h1) ?a = deref h ?a"
    using first by (simp add: deref_mutate_other)
  have "?a < length (mutate r ws h1)"
    using assms(1) first(3) by simp
  from PublicKey_bytes_st_result(1) [OF this g'] kept first(1)
  have "deref h3 r' = deref h1 r" by simp
  with kept g g' show "let (r, h1) = PublicKey_bytes_st pk h;
            h2 = mutate r ws h1;
            (r', h3) = PublicKey_bytes_st pk h2
        in deref h2 ?a = deref h ?a \<and> deref h3 r' = deref h1 r"
    by simp
next
  let ?a = "pk_bytes_ref pk"
  obtain r h1 where g: "PublicKey_x_st pk h = (r, h1)"
    by (cases "PublicKey_x_st pk h")
  obtain r' h3 where g': "PublicKey_x_st pk (mutate r ws h1) = (r', h3)"
    by (cases "PublicKey_x_st pk (mutate r ws h1)")
  note first = PublicKey_x_st_result [OF assms(1) g]
  have kept: "deref (mutate r ws h1) ?a = deref h ?a"
    using first by (simp add: deref_mutate_other)
  have "?a < length (mutate r ws h1)"
    using assms(1) first(3) by simp
  from PublicKey_x_st_result(1) [OF this g'] kept first(1)
  have "deref h3 r' = deref h1 r" by simp
  with kept g g' show "let (r, h1) = PublicKey_x_st pk h;
            h2 = mutate r ws h1;
            (r', h3) = PublicKey_x_st pk h2
        in deref h2 ?a = deref h ?a \<and> deref h3 r' = deref h1 r"
    by simp
next
  show "case PrivateKey_bytes_st sk h of
          Inl e \<Rightarrow> True
        | Inr (r, h1) \<Rightarrow>
            (case PrivateKey_bytes_st sk (mutate r ws h1) of
               Inl e \<Rightarrow> False
             | Inr (r', h3) \<Rightarrow> deref h3 r' = deref h1 r)"
  proof (cases "sk_bytes_ref sk")
    case UndefinedR
    then show ?thesis by (simp add: PrivateKey_bytes_st_def)
  next
    case (Uint8ArrayR a)
    with assms(2) have a: "a < length h" by simp
    let ?h1 = "h @ [deref h a]"
    have kept: "deref (mutate (length h) ws ?h1) a = deref h a"
      using a by (simp add: deref_mutate_other deref_alloc_old)
    have "a < length (mutate (length h) ws ?h1)" using a by simp
    from PrivateKey_bytes_st_result [OF Uint8ArrayR this]
         PrivateKey_bytes_st_result [OF Uint8ArrayR a] kept
    show ?thesis by (simp add: deref_alloc_new)
  next
    case (BigIntR s)
    then show ?thesis by (simp add: PrivateKey_bytes_st_def)
  qed
qed

theorem getters_return_copies_witness:
  "(let pk = \<lparr>pk_bytes_ref = 0\<rparr>;
        h = [0x03 # replicate 32 0x11, replicate 32 0x07];
        (r, h1) = PublicKey_bytes_st pk h;
        h2 = mutate r [(0, 0xff)] h1;
        (r', h3) = PublicKey_bytes_st pk h2
    in deref h2 r \<noteq> deref h1 r \<and> deref h3 r' = deref h1 r)
   \<and> (let pk = \<lparr>pk_bytes_ref = 0\<rparr>;
        h = [0x03 # replicate 32 0x11, replicate 32 0x07];
        (r, h1) = PublicKey_x_st pk h;
        h2 = mutate r [(0, 0xff)] h1;
        (r', h3) = PublicKey_x_st pk h2
    in deref h2 r \<noteq> deref h1 r \<and> deref h3 r' = deref h1 r)
   \<and> (let sk = \<lparr>sk_bytes_ref = Uint8ArrayR 1, sk_secret_ref = Uint8ArrayR 1\<rparr>;
        h = [0x03 # replicate 32 0x11, replicate 32 0x07]
    in case PrivateKey_bytes_st sk h of
         Inl e \<Rightarrow> False
       | Inr (r, h1) \<Rightarrow>
           (case PrivateKey_bytes_st sk (mutate r [(0, 0xff)] h1) of
              Inl e \<Rightarrow> False
            | Inr (r', h3) \<Rightarrow>
                deref (mutate r [(0, 0xff)] h1) r \<noteq> deref h1 r \<and> deref h3 r' = deref h1 r))"
proof -
  let ?h = "[0x03 # replicate 32 0x11, replicate 32 (0x07 :: byte)]"
  let ?sk = "\<lparr>sk_bytes_ref = Uint8ArrayR 1, sk_secret_ref = Uint8ArrayR 1\<rparr>"
  have 1: "pk_bytes_ref \<lparr>pk_bytes_ref = 0\<rparr> < length ?h" by simp
  have 2: "\<forall>a. sk_bytes_ref ?sk = Uint8ArrayR a \<longrightarrow> a < length ?h" by simp
  have changed: "(0x03 # replicate 32 (0x11 :: byte))[0 := 0xff] \<noteq> 0x03 # replicate 32 0x11"
    "(replicate 32 (0x11 :: byte))[0 := 0xff] \<noteq> replicate 32 0x11"
    "(replicate 32 (0x07 :: byte))[0 := 0xff] \<noteq> replicate 32 0x07"
    by code_simp+
  from getters_return_copies [OF 1 2, of "[(0, 0xff)]"] changed show ?thesis
    by (simp add: PublicKey_bytes_st_def PublicKey_x_st_def PrivateKey_bytes_st_def alloc_def
        mutate_def set_index_def deref_def slice_def Let_def)
qed

text \<open>The array at \<open>a\<close> after the assignments \<open>ws\<close> to it.\<close>

lemma deref_mutate_same:
  "deref (mutate a ws h) a = fold (\<lambda>w bs. bs[fst w := snd w]) ws (deref h a)"
  unfolding mutate_def
proof (induction ws arbitrary: h)
  case Nil
  show ?case by simp
next
  case (Cons w ws)
  have "deref (set_index a w h) a = (deref h a)[fst w := snd w]"
    by (simp add: set_index_def deref_def)
  with Cons show ?case by simp
qed

text \<open>
  Claim C10. The constructor keeps the caller's 33-byte array itself (the object's
  reference is the argument), so after the caller's assignments \<open>ws\<close> to that array the
  accessors \<open>bytes\<close>, \<open>x\<close> and \<open>parity\<close> return the array as assigned. A 32-byte array
  is copied into a new one, and assignments to the caller's array do not reach it.
\<close>

theorem PublicKey_constructor_keeps_33_byte_input:
  assumes "a < length h"
  shows "(length (deref h a) = 33 \<longrightarrow>
            PublicKey_constructor_st a h = Inr (\<lparr>pk_bytes_ref = a\<rparr>, h)
            \<and> (let h' = mutate a ws h;
                    now = fold (\<lambda>w bs. bs[fst w := snd w]) ws (deref h a)
                in deref h' a = now
                   \<and> (let (r, h1) = PublicKey_bytes_st \<lparr>pk_bytes_ref = a\<rparr> h'
                       in deref h1 r = now)
                   \<and> (let (r, h1) = PublicKey_x_st \<lparr>pk_bytes_ref = a\<rparr> h'
                       in deref h1 r = slice 1 33 now)
                   \<and> fst (PublicKey_parity_st \<lparr>pk_bytes_ref = a\<rparr> h') = at_index now 0))
       \<and> (length (deref h a) = 32 \<longrightarrow>
            PublicKey_constructor_st a h
              = Inr (\<lparr>pk_bytes_ref = length h\<rparr>, h @ [0x02 # deref h a])
            \<and> (let h' = mutate a ws (h @ [0x02 # deref h a]);
                    (r, h1) = PublicKey_bytes_st \<lparr>pk_bytes_ref = length h\<rparr> h'
                in deref h1 r = 0x02 # deref h a))"
proof (intro conjI impI)
  assume "length (deref h a) = 33"
  then show "PublicKey_constructor_st a h = Inr (\<lparr>pk_bytes_ref = a\<rparr>, h)"
    by (simp add: PublicKey_constructor_st_def)
next
  let ?k = "\<lparr>pk_bytes_ref = a\<rparr>"
  let ?h' = "mutate a ws h"
  let ?now = "fold (\<lambda>w bs. bs[fst w := snd w]) ws (deref h a)"
  have a': "pk_bytes_ref ?k < length ?h'" using assms by simp
  have now: "deref ?h' a = ?now" by (rule deref_mutate_same)
  obtain r h1 where g: "PublicKey_bytes_st ?k ?h' = (r, h1)"
    by (cases "PublicKey_bytes_st ?k ?h'")
  obtain rx hx where gx: "PublicKey_x_st ?k ?h' = (rx, hx)"
    by (cases "PublicKey_x_st ?k ?h'")
  have par: "fst (PublicKey_parity_st ?k ?h') = at_index (deref h1 r) 0"
    using g by (simp add: PublicKey_parity_st_def)
  from PublicKey_bytes_st_result(1) [OF a' g] PublicKey_x_st_result(1) [OF a' gx] par now g gx
  show "let h' = mutate a ws h; now = ?now
        in deref h' a = now
           \<and> (let (r, h1) = PublicKey_bytes_st ?k h' in deref h1 r = now)
           \<and> (let (r, h1) = PublicKey_x_st ?k h' in deref h1 r = slice 1 33 now)
           \<and> fst (PublicKey_parity_st ?k h') = at_index now 0"
    by simp
next
  assume "length (deref h a) = 32"
  then show "PublicKey_constructor_st a h
               = Inr (\<lparr>pk_bytes_ref = length h\<rparr>, h @ [0x02 # deref h a])"
    by (simp add: PublicKey_constructor_st_def alloc_def)
next
  let ?k = "\<lparr>pk_bytes_ref = length h\<rparr>"
  let ?h' = "mutate a ws (h @ [0x02 # deref h a])"
  have a': "pk_bytes_ref ?k < length ?h'" by simp
  obtain r h1 where g: "PublicKey_bytes_st ?k ?h' = (r, h1)"
    by (cases "PublicKey_bytes_st ?k ?h'")
  have "deref ?h' (length h) = deref (h @ [0x02 # deref h a]) (length h)"
    using assms by (intro deref_mutate_other) simp
  also have "\<dots> = 0x02 # deref h a"
    by (rule deref_alloc_new) simp
  finally have "deref h1 r = 0x02 # deref h a"
    using PublicKey_bytes_st_result(1) [OF a' g] by simp
  with g show "let h' = mutate a ws (h @ [0x02 # deref h a]);
            (r, h1) = PublicKey_bytes_st ?k h'
        in deref h1 r = 0x02 # deref h a"
    by simp
qed

theorem PublicKey_constructor_keeps_33_byte_input_witness:
  "(let h = [0x02 # replicate 32 0x11] in
      PublicKey_constructor_st 0 h = Inr (\<lparr>pk_bytes_ref = 0\<rparr>, h)
      \<and> (let (r, h1) = PublicKey_bytes_st \<lparr>pk_bytes_ref = 0\<rparr> h
          in deref h1 r = 0x02 # replicate 32 0x11)
      \<and> (let h' = mutate 0 [(0, 0x03), (1, 0xff)] h
          in (let (r, h1) = PublicKey_bytes_st \<lparr>pk_bytes_ref = 0\<rparr> h'
              in deref h1 r = 0x03 # 0xff # replicate 31 0x11)
             \<and> (let (r, h1) = PublicKey_x_st \<lparr>pk_bytes_ref = 0\<rparr> h'
                 in deref h1 r = 0xff # replicate 31 0x11)
             \<and> fst (PublicKey_parity_st \<lparr>pk_bytes_ref = 0\<rparr> h') = Some 0x03))
   \<and> (let h = [replicate 32 0x11] in
        PublicKey_constructor_st 0 h
          = Inr (\<lparr>pk_bytes_ref = 1\<rparr>, h @ [0x02 # replicate 32 0x11])
        \<and> (let h' = mutate 0 [(0, 0x03), (1, 0xff)] (h @ [0x02 # replicate 32 0x11]);
                (r, h1) = PublicKey_bytes_st \<lparr>pk_bytes_ref = 1\<rparr> h'
            in deref h1 r = 0x02 # replicate 32 0x11))"
proof -
  have 1: "0 < length [0x02 # replicate 32 (0x11 :: byte)]" by simp
  have 2: "0 < length [replicate 32 (0x11 :: byte)]" by simp
  have before: "(let (r, h1) = PublicKey_bytes_st \<lparr>pk_bytes_ref = 0\<rparr> [0x02 # replicate 32 0x11]
          in deref h1 r = 0x02 # replicate 32 0x11)"
    by (simp add: PublicKey_bytes_st_def alloc_def deref_def)
  have now: "fold (\<lambda>w bs. bs[fst w := snd w]) [(0, 0x03), (1, 0xff)] (0x02 # replicate 32 (0x11 :: byte))
               = 0x03 # 0xff # replicate 31 0x11"
    by code_simp
  have d: "deref [0x02 # replicate 32 (0x11 :: byte)] 0 = 0x02 # replicate 32 0x11"
    "deref [replicate 32 (0x11 :: byte)] 0 = replicate 32 0x11"
    by (simp_all add: deref_def)
  have l: "length (0x02 # replicate 32 (0x11 :: byte)) = 33" "length (replicate 32 (0x11 :: byte)) = 32"
    by simp_all
  have s: "slice 1 33 (0x03 # 0xff # replicate 31 (0x11 :: byte)) = 0xff # replicate 31 0x11"
    by (simp add: slice_def)
  have p: "at_index (0x03 # 0xff # replicate 31 (0x11 :: byte)) 0 = Some 0x03"
    by (simp add: at_index_def)
  from PublicKey_constructor_keeps_33_byte_input [OF 1, of "[(0, 0x03), (1, 0xff)]"]
       PublicKey_constructor_keeps_33_byte_input [OF 2, of "[(0, 0x03), (1, 0xff)]"]
       before
  show ?thesis
    unfolding d l now Let_def s p by simp
qed

section \<open>Modular exponentiation\<close>

text \<open>
  The truncating remainder of a product may be taken after reducing a factor. With it,
  the loop of \<open>modPow\<close> has a simple invariant: for a non-zero modulus and a positive
  exponent it returns the truncating remainder of \<open>result * base ^ exp\<close>.
\<close>

lemma trunc_rem_nonneg: "0 \<le> a \<Longrightarrow> trunc_rem a m = a mod \<bar>m\<bar>"
  by (cases "a = 0") (simp_all add: trunc_rem_def)

lemma trunc_rem_mult_left:
  "trunc_rem (trunc_rem x m * y) m = trunc_rem (x * y) m"
proof (cases "\<bar>x\<bar> mod \<bar>m\<bar> = 0")
  case True
  then have "(\<bar>x\<bar> * \<bar>y\<bar>) mod \<bar>m\<bar> = 0"
    by (metis mod_mult_left_eq mult_zero_left mod_0)
  with True show ?thesis
    by (simp add: trunc_rem_def abs_mult)
next
  case False
  then have x: "x \<noteq> 0" by auto
  let ?t = "trunc_rem x m"
  have pos: "0 < \<bar>x\<bar> mod \<bar>m\<bar>"
    using False by (metis abs_ge_zero less_le mod_by_0 pos_mod_sign zero_less_abs_iff)
  have abs_t: "\<bar>?t\<bar> = \<bar>x\<bar> mod \<bar>m\<bar>"
    using x pos by (simp add: trunc_rem_def abs_mult)
  have sgn_t: "sgn ?t = sgn x"
    using x pos by (simp add: trunc_rem_def sgn_mult)
  have "(\<bar>?t\<bar> * \<bar>y\<bar>) mod \<bar>m\<bar> = (\<bar>x\<bar> * \<bar>y\<bar>) mod \<bar>m\<bar>"
    unfolding abs_t by (simp add: mod_mult_left_eq)
  then show ?thesis
    using sgn_t by (simp add: trunc_rem_def [of "_ * _"] abs_mult sgn_mult)
qed

lemma trunc_rem_mult_right:
  "trunc_rem (x * trunc_rem y m) m = trunc_rem (x * y) m"
  using trunc_rem_mult_left [of y m x] by (simp add: mult.commute)

lemma trunc_rem_mult_power:
  "trunc_rem (z * trunc_rem w m ^ k) m = trunc_rem (z * w ^ k) m"
proof (induction k arbitrary: z)
  case 0
  show ?case by simp
next
  case (Suc k)
  have "trunc_rem (z * trunc_rem w m ^ Suc k) m = trunc_rem ((z * trunc_rem w m) * trunc_rem w m ^ k) m"
    by (simp add: mult.assoc)
  also have "\<dots> = trunc_rem ((z * trunc_rem w m) * w ^ k) m"
    by (rule Suc.IH)
  also have "\<dots> = trunc_rem ((w ^ k * z) * trunc_rem w m) m"
    by (simp add: mult.commute mult.left_commute)
  also have "\<dots> = trunc_rem ((w ^ k * z) * w) m"
    by (rule trunc_rem_mult_right)
  also have "\<dots> = trunc_rem (z * w ^ Suc k) m"
    by (simp add: mult.commute mult.left_commute)
  finally show ?case .
qed

lemma modPow_while_eq:
  assumes "m \<noteq> 0"
  shows "modPow_while result base exp m =
           Inr (if exp \<le> 0 then result else trunc_rem (result * base ^ nat exp) m)"
  using assms
proof (induction result base exp m rule: modPow_while.induct)
  case (1 result base exp m)
  show ?case
  proof (cases "exp > 0")
    case False
    then show ?thesis by (simp add: modPow_while.simps [of result base exp m])
  next
    case True
    let ?r' = "if exp AND 1 \<noteq> 0 then trunc_rem (result * base) m else result"
    let ?b' = "trunc_rem (base * base) m"
    let ?e' = "drop_bit 1 exp"
    have step: "modPow_while result base exp m = modPow_while ?r' ?b' ?e' m"
      using True \<open>m \<noteq> 0\<close>
      by (subst modPow_while.simps) (simp add: js_rem_def)
    have IH: "modPow_while ?r' ?b' ?e' m =
           Inr (if ?e' \<le> 0 then ?r' else trunc_rem (?r' * ?b' ^ nat ?e') m)"
      using True \<open>m \<noteq> 0\<close>
      by (intro "1.IH") (simp_all add: js_rem_def)
    have e': "?e' = exp div 2" by (simp add: drop_bit_eq_div)
    have odd_iff: "exp AND 1 \<noteq> 0 \<longleftrightarrow> odd exp"
      by (simp add: and_one_eq mod_2_eq_odd)
    have goal: "(if exp \<le> 0 then result else trunc_rem (result * base ^ nat exp) m)
                  = trunc_rem (result * base ^ nat exp) m"
      using True by simp
    show ?thesis
    proof (cases "?e' \<le> 0")
      case True
      with \<open>exp > 0\<close> e' have "exp = 1" by simp
      then show ?thesis
        unfolding step IH by simp
    next
      case False
      then have e'pos: "0 < exp div 2" using e' by simp
      have res: "modPow_while result base exp m = Inr (trunc_rem (?r' * ?b' ^ nat ?e') m)"
        unfolding step IH using False by (simp only: if_False)
      have pw: "trunc_rem (?r' * ?b' ^ nat ?e') m
                  = trunc_rem (?r' * base ^ (2 * nat (exp div 2))) m"
        unfolding e' trunc_rem_mult_power
        by (simp only: power_mult power2_eq_square mult.commute)
      have "trunc_rem (?r' * base ^ (2 * nat (exp div 2))) m
              = trunc_rem (result * base ^ nat exp) m"
      proof (cases "odd exp")
        case True
        then have "exp = 2 * (exp div 2) + 1" by presburger
        then have "nat exp = nat (2 * (exp div 2) + 1)" by simp
        also have "\<dots> = Suc (2 * nat (exp div 2))"
          using e'pos by (simp add: nat_add_distrib nat_mult_distrib)
        finally have n: "nat exp = Suc (2 * nat (exp div 2))" .
        have "trunc_rem (trunc_rem (result * base) m * base ^ (2 * nat (exp div 2))) m
                = trunc_rem (result * base ^ nat exp) m"
          unfolding trunc_rem_mult_left n by (simp add: mult.assoc)
        with True show ?thesis by (simp add: odd_iff)
      next
        case False
        then have "exp = 2 * (exp div 2)" by presburger
        then have "nat exp = nat (2 * (exp div 2))" by simp
        also have "\<dots> = 2 * nat (exp div 2)"
          using e'pos by (simp add: nat_mult_distrib)
        finally have n: "nat exp = 2 * nat (exp div 2)" .
        with False show ?thesis by (simp add: odd_iff)
      qed
      with res pw show ?thesis
        unfolding goal by simp
    qed
  qed
qed

lemma modPow_eq:
  assumes "1 < m" and "0 \<le> exp"
  shows "modPow base exp m = Inr (trunc_rem (base ^ nat exp) m)"
proof (cases "exp = 0")
  case True
  with assms(1) show ?thesis
    by (simp add: modPow_def modPow_while_eq trunc_rem_def)
next
  case False
  with assms show ?thesis
    by (simp add: modPow_def modPow_while_eq)
qed

text \<open>
  Claim C3, as the code has it. For every integer base, every exponent \<open>exp \<ge> 0\<close> and
  every modulus \<open>m > 1\<close>, \<open>modPow\<close> returns the remainder of \<open>base ^ exp\<close> in the sense of
  JavaScript's \<open>%\<close>: truncated towards zero, so with the sign of \<open>base ^ exp\<close>. That is
  \<open>base ^ exp mod m\<close> whenever the base is not negative or the exponent is even.
\<close>

theorem modPow_truncated_remainder:
  assumes "1 < m" and "0 \<le> exp"
  shows "modPow base exp m = Inr (trunc_rem (base ^ nat exp) m)
       \<and> trunc_rem (base ^ nat exp) m = sgn (base ^ nat exp) * (\<bar>base ^ nat exp\<bar> mod m)
       \<and> (0 \<le> base \<or> even exp \<longrightarrow> modPow base exp m = Inr (base ^ nat exp mod m))"
proof -
  have eq: "modPow base exp m = Inr (trunc_rem (base ^ nat exp) m)"
    using assms by (rule modPow_eq)
  have "0 \<le> base ^ nat exp" if "0 \<le> base \<or> even exp"
  proof (cases "0 \<le> base")
    case True
    then show ?thesis by simp
  next
    case False
    with that have "even exp" by simp
    with assms(2) have "even (nat exp)" by (simp add: even_nat_iff)
    then show ?thesis by (rule zero_le_even_power)
  qed
  then have "trunc_rem (base ^ nat exp) m = base ^ nat exp mod m" if "0 \<le> base \<or> even exp"
    using that assms(1) by (simp add: trunc_rem_nonneg)
  with eq assms(1) show ?thesis
    by (simp add: trunc_rem_def)
qed

theorem modPow_truncated_remainder_witness:
  "modPow (- 2) 3 5 = Inr (- 3) \<and> modPow 2 10 1000 = Inr 24 \<and> modPow (- 2) 2 5 = Inr 4"
  using modPow_truncated_remainder [of 5 3 "- 2"] modPow_truncated_remainder [of 1000 10 2]
    modPow_truncated_remainder [of 5 2 "- 2"]
  by (simp add: trunc_rem_def)

text \<open>For the base \<open>-2\<close>, the exponent \<open>1\<close> and the modulus \<open>5\<close>, \<open>modPow\<close> returns
  \<open>-2\<close>, while \<open>(-2) ^ 1 mod 5\<close> is \<open>3\<close>.\<close>

theorem modPow_negative_base:
  "modPow (- 2) 1 5 = Inr (- 2) \<and> (- 2 :: int) ^ nat 1 mod 5 = 3"
  using modPow_eq [of 5 1 "- 2"] by (simp add: trunc_rem_def)

section \<open>Bytes, hexadecimal text and integers\<close>

text \<open>
  \<open>liftX\<close> reads its argument through hexadecimal text and writes \<open>y\<close> through
  hexadecimal text padded to 64 digits. The first is the big-endian value of the bytes;
  the second is the big-endian encoding on 32 bytes of any \<open>y\<close> from \<open>0\<close> up to
  \<open>2 ^ 256 - 1\<close>.
\<close>

lemma unat_byte_less: "unat (b :: byte) < 256"
  using unsigned_less [of b, where 'a = nat] by simp

lemma hex_digits_value_toString_hex:
  "hex_digits_value acc (Buffer_toString_hex bs) = Some (foldl (\<lambda>acc b. 256 * acc + uint b) acc bs)"
proof (induction bs arbitrary: acc)
  case Nil
  show ?case by (simp add: Buffer_toString_hex_def)
next
  case (Cons b bs)
  have hi: "unat b div 16 < 16" using unat_byte_less [of b] by simp
  have eq: "16 * (16 * acc + int (unat b div 16)) + int (unat b mod 16) = 256 * acc + uint b"
    by (simp add: zdiv_int zmod_int)
  have "hex_digits_value acc (Buffer_toString_hex (b # bs))
          = hex_digits_value (16 * (16 * acc + int (unat b div 16)) + int (unat b mod 16))
              (Buffer_toString_hex bs)"
    using hi by (simp add: Buffer_toString_hex_def hex_value_hex_digit)
  also have "\<dots> = Some (foldl (\<lambda>acc b. 256 * acc + uint b) (256 * acc + uint b) bs)"
    unfolding eq by (rule Cons.IH)
  finally show ?case by simp
qed

lemma BigInt_0x_toString_hex:
  assumes "bs \<noteq> []"
  shows "BigInt_0x (Buffer_toString_hex bs) = Inr (be_value bs)"
proof -
  from assms have "Buffer_toString_hex bs \<noteq> []"
    by (cases bs) (simp_all add: Buffer_toString_hex_def)
  then show ?thesis
    by (simp add: BigInt_0x_def hex_digits_value_toString_hex be_value_def)
qed

lemma length_hex_fixed [simp]: "length (hex_fixed k v) = k"
  by (induction k arbitrary: v) simp_all

lemma hex_fixed_zero: "hex_fixed k 0 = replicate k CHR ''0''"
proof (induction k)
  case 0
  show ?case by simp
next
  case (Suc k)
  have "hex_digit 0 = CHR ''0''" by code_simp
  with Suc show ?case by (simp add: replicate_append_same)
qed

lemma length_hex_of_nat: "v < 16 ^ k \<Longrightarrow> 0 < k \<Longrightarrow> length (hex_of_nat v) \<le> k"
proof (induction k arbitrary: v)
  case 0
  then show ?case by simp
next
  case (Suc k)
  show ?case
  proof (cases "v < 16")
    case True
    then show ?thesis by (simp add: hex_of_nat.simps [of v])
  next
    case False
    with Suc.prems have "v div 16 < 16 ^ k" by (simp add: less_mult_imp_div_less mult.commute)
    moreover from False have "0 < k" using Suc.prems by (cases k) simp_all
    ultimately have "length (hex_of_nat (v div 16)) \<le> k" by (rule Suc.IH)
    with False show ?thesis by (simp add: hex_of_nat.simps [of v])
  qed
qed

lemma padStart_hex_of_nat:
  "v < 16 ^ k \<Longrightarrow> 0 < k \<Longrightarrow> padStart (hex_of_nat v) k CHR ''0'' = hex_fixed k v"
proof (induction k arbitrary: v)
  case 0
  then show ?case by simp
next
  case (Suc k)
  show ?case
  proof (cases "v < 16")
    case True
    then have "v div 16 = 0" by simp
    with True show ?thesis
      by (simp add: hex_of_nat.simps [of v] padStart_def hex_fixed_zero)
  next
    case False
    with Suc.prems have lt: "v div 16 < 16 ^ k" by (simp add: less_mult_imp_div_less mult.commute)
    from False have k: "0 < k" using Suc.prems by (cases k) simp_all
    have len: "length (hex_of_nat (v div 16)) \<le> k" using lt k by (rule length_hex_of_nat)
    have "padStart (hex_of_nat (v div 16)) k CHR ''0'' = hex_fixed k (v div 16)"
      using lt k by (rule Suc.IH)
    with False len show ?thesis
      by (simp add: hex_of_nat.simps [of v] padStart_def Suc_diff_le)
  qed
qed

lemma Buffer_from_hex_append:
  assumes "even (length s)" and "\<forall>c\<in>set s. hex_value c \<noteq> None"
  shows "Buffer_from_hex (s @ t) = Buffer_from_hex s @ Buffer_from_hex t"
  using assms
proof (induction s rule: Buffer_from_hex.induct)
  case (1 c1 c2 cs)
  then show ?case by (auto split: option.splits)
qed simp_all

lemma hex_fixed_valid: "\<forall>c\<in>set (hex_fixed k v). hex_value c \<noteq> None"
  by (induction k arbitrary: v) (auto simp: hex_value_hex_digit)

lemma be_bytes_Suc: "be_bytes (Suc k) v = be_bytes k (v div 256) @ [word_of_int v]"
proof -
  have "v div 256 ^ (k - i) = v div 256 div 256 ^ (k - Suc i)" if "i < k" for i
  proof -
    from that have "k - i = Suc (k - Suc i)" by simp
    then show ?thesis by (simp add: zdiv_zmult2_eq)
  qed
  then show ?thesis
    by (simp add: be_bytes_def)
qed

lemma Buffer_from_hex_hex_fixed:
  "Buffer_from_hex (hex_fixed (2 * k) v) = be_bytes k (int v)"
proof (induction k arbitrary: v)
  case 0
  show ?case by (simp add: be_bytes_def)
next
  case (Suc k)
  let ?hi = "v div 16 mod 16" and ?lo = "v mod 16"
  have "v div 16 div 16 = v div (16 * 16)"
    by (rule div_mult2_eq [symmetric])
  then have "v div 16 div 16 = v div 256"
    by simp
  then have split: "hex_fixed (2 * Suc k) v = hex_fixed (2 * k) (v div 256) @ [hex_digit ?hi, hex_digit ?lo]"
    by simp
  have last: "Buffer_from_hex [hex_digit ?hi, hex_digit ?lo] = [of_nat (16 * ?hi + ?lo)]"
    by (simp add: hex_value_hex_digit)
  have "16 * ?hi + ?lo = v mod 256"
    using mod_mult2_eq [of v 16 16] by simp
  moreover have "(of_nat (v mod 256) :: byte) = of_nat v"
    by (simp add: word_of_nat_eq_iff take_bit_eq_mod)
  ultimately have byte: "(of_nat (16 * ?hi + ?lo) :: byte) = word_of_int (int v)"
    by simp
  have "Buffer_from_hex (hex_fixed (2 * Suc k) v)
          = Buffer_from_hex (hex_fixed (2 * k) (v div 256)) @ [of_nat (16 * ?hi + ?lo)]"
    unfolding split using last
    by (subst Buffer_from_hex_append) (simp_all add: hex_fixed_valid)
  also have "\<dots> = be_bytes k (int (v div 256)) @ [word_of_int (int v)]"
    by (simp only: Suc.IH byte)
  also have "\<dots> = be_bytes (Suc k) (int v)"
    by (simp add: be_bytes_Suc zdiv_int)
  finally show ?case .
qed

lemma yBytes_eq:
  assumes "0 \<le> y" and "y < 2 ^ 256"
  shows "Buffer_from_hex (padStart (toString16 y) 64 CHR ''0'') = be_bytes 32 y"
proof -
  from assms have "nat y < 16 ^ 64" by (simp add: nat_less_iff)
  then have "padStart (hex_of_nat (nat y)) 64 CHR ''0'' = hex_fixed 64 (nat y)"
    using padStart_hex_of_nat [of "nat y" 64] by simp
  moreover have "Buffer_from_hex (hex_fixed 64 (nat y)) = be_bytes 32 (int (nat y))"
    using Buffer_from_hex_hex_fixed [of 32 "nat y"] by simp
  ultimately show ?thesis
    using assms(1) by (simp add: toString16_def)
qed

lemma length_be_bytes [simp]: "length (be_bytes k v) = k"
  by (simp add: be_bytes_def)

section \<open>Point recovery\<close>

lemma foldl_be_nonneg: "0 \<le> acc \<Longrightarrow> 0 \<le> foldl (\<lambda>acc b. 256 * acc + uint b) acc bs"
  by (induction bs arbitrary: acc) simp_all

lemma be_value_nonneg: "0 \<le> be_value bs"
  by (simp add: be_value_def foldl_be_nonneg)

lemma liftX_length_error:
  assumes "length xBytes \<noteq> 32"
  shows "liftX C xBytes =
           Inl (PublicKeyError ''Invalid argument: x-coordinate length must be 32 bytes''
                  LIFT_X_ERROR)"
  using assms by (simp add: liftX_def)

lemma liftX_range_error:
  assumes "length xBytes = 32" and "be_value xBytes = 0 \<or> be_value xBytes \<ge> curve_p C"
  shows "liftX C xBytes =
           Inl (PublicKeyError ''Invalid conversion: x out of range as BigInt'' LIFT_X_ERROR)"
proof -
  from assms(1) have "xBytes \<noteq> []" by auto
  then have "BigInt_0x (Buffer_toString_hex xBytes) = Inr (be_value xBytes)"
    by (rule BigInt_0x_toString_hex)
  with assms show ?thesis
    by (auto simp: liftX_def)
qed

lemma sqrtMod_eq:
  assumes "1 < p" and "0 \<le> a"
  shows "sqrtMod a p = Inr (a ^ nat ((p + 1) div 4) mod p)"
proof -
  have e: "drop_bit 2 (p + 1) = (p + 1) div 4"
    by (simp add: drop_bit_eq_div)
  have "0 \<le> (p + 1) div 4" using assms(1) by simp
  with assms(1) have "modPow a ((p + 1) div 4) p = Inr (trunc_rem (a ^ nat ((p + 1) div 4)) p)"
    by (intro modPow_eq)
  moreover have "trunc_rem (a ^ nat ((p + 1) div 4)) p = a ^ nat ((p + 1) div 4) mod p"
    using assms by (simp add: trunc_rem_nonneg)
  ultimately show ?thesis
    by (simp add: sqrtMod_def e)
qed

lemma liftX_in_range:
  assumes len: "length xBytes = 32"
    and x: "0 < be_value xBytes" "be_value xBytes < curve_p C"
    and b: "0 \<le> curve_b C" and p: "curve_p C \<le> 2 ^ 256"
  shows "liftX C xBytes =
           Inr (0x04 # xBytes
                @ be_bytes 32 (((be_value xBytes ^ 3 + curve_b C) mod curve_p C)
                                 ^ nat ((curve_p C + 1) div 4) mod curve_p C))"
proof -
  let ?x = "be_value xBytes" and ?p = "curve_p C"
  let ?ySquared = "(?x ^ 3 + curve_b C) mod ?p"
  let ?y = "?ySquared ^ nat ((?p + 1) div 4) mod ?p"
  from x have p1: "1 < ?p" by simp
  from len have "xBytes \<noteq> []" by auto
  then have parse: "BigInt_0x (Buffer_toString_hex xBytes) = Inr ?x"
    by (rule BigInt_0x_toString_hex)
  have "0 \<le> ?x ^ 3 + curve_b C" using x(1) b by simp
  then have rem: "js_rem (?x ^ 3 + curve_b C) ?p = Inr ?ySquared"
    using p1 by (simp add: js_rem_def trunc_rem_nonneg)
  have "0 \<le> ?ySquared" using p1 by simp
  with p1 have root: "sqrtMod ?ySquared ?p = Inr ?y" by (rule sqrtMod_eq)
  have "0 \<le> ?y" and "?y < ?p" using p1 by simp_all
  with p have "Buffer_from_hex (padStart (toString16 ?y) 64 CHR ''0'') = be_bytes 32 ?y"
    by (intro yBytes_eq) simp_all
  with len x parse rem root show ?thesis
    by (simp add: liftX_def)
qed

text \<open>
  Claim C6. For a curve with \<open>b \<ge> 0\<close> and \<open>p \<le> 2 ^ 256\<close> (as secp256k1 has): \<open>liftX\<close>
  fails with the error coded \<open>LIFT_X_ERROR\<close> when the input is not 32 bytes long, and
  when its big-endian value \<open>x\<close> is \<open>0\<close> or is at least \<open>p\<close>; for every 32-byte input with
  \<open>0 < x < p\<close> it returns 65 bytes, the first of which is \<open>0x04\<close> and of which bytes 1 to
  32 are the input.
\<close>

theorem liftX_range_and_shape:
  assumes "0 \<le> curve_b C" and "curve_p C \<le> 2 ^ 256"
  shows "(length xBytes \<noteq> 32 \<longrightarrow>
            liftX C xBytes =
              Inl (PublicKeyError ''Invalid argument: x-coordinate length must be 32 bytes''
                     LIFT_X_ERROR))
       \<and> (length xBytes = 32 \<and> (be_value xBytes = 0 \<or> be_value xBytes \<ge> curve_p C) \<longrightarrow>
            liftX C xBytes =
              Inl (PublicKeyError ''Invalid conversion: x out of range as BigInt''
                     LIFT_X_ERROR))
       \<and> (length xBytes = 32 \<and> 0 < be_value xBytes \<and> be_value xBytes < curve_p C \<longrightarrow>
            (case liftX C xBytes of
               Inl e \<Rightarrow> False
             | Inr u \<Rightarrow> length u = 65 \<and> at_index u 0 = Some 0x04 \<and> slice 1 33 u = xBytes))"
proof (intro conjI impI)
  assume "length xBytes \<noteq> 32"
  then show "liftX C xBytes =
      Inl (PublicKeyError ''Invalid argument: x-coordinate length must be 32 bytes'' LIFT_X_ERROR)"
    by (rule liftX_length_error)
next
  assume "length xBytes = 32 \<and> (be_value xBytes = 0 \<or> be_value xBytes \<ge> curve_p C)"
  then show "liftX C xBytes =
      Inl (PublicKeyError ''Invalid conversion: x out of range as BigInt'' LIFT_X_ERROR)"
    by (intro liftX_range_error) simp_all
next
  assume a: "length xBytes = 32 \<and> 0 < be_value xBytes \<and> be_value xBytes < curve_p C"
  with assms have "liftX C xBytes =
           Inr (0x04 # xBytes
                @ be_bytes 32 (((be_value xBytes ^ 3 + curve_b C) mod curve_p C)
                                 ^ nat ((curve_p C + 1) div 4) mod curve_p C))"
    by (intro liftX_in_range) simp_all
  with a show "case liftX C xBytes of
               Inl e \<Rightarrow> False
             | Inr u \<Rightarrow> length u = 65 \<and> at_index u 0 = Some 0x04 \<and> slice 1 33 u = xBytes"
    by (simp add: at_index_def slice_def)
qed

theorem liftX_range_and_shape_witness:
  "liftX secp256k1 (replicate 33 0x01) =
     Inl (PublicKeyError ''Invalid argument: x-coordinate length must be 32 bytes'' LIFT_X_ERROR)
   \<and> liftX secp256k1 (replicate 32 0x00) =
     Inl (PublicKeyError ''Invalid conversion: x out of range as BigInt'' LIFT_X_ERROR)
   \<and> liftX secp256k1 (replicate 32 0xff) =
     Inl (PublicKeyError ''Invalid conversion: x out of range as BigInt'' LIFT_X_ERROR)
   \<and> (case liftX secp256k1 (replicate 31 0x00 @ [0x01]) of
        Inl e \<Rightarrow> False
      | Inr u \<Rightarrow> length u = 65 \<and> at_index u 0 = Some 0x04
                 \<and> slice 1 33 u = replicate 31 0x00 @ [0x01])"
proof -
  have b: "0 \<le> curve_b secp256k1" and p: "curve_p secp256k1 \<le> 2 ^ 256"
    by (simp_all add: secp256k1_def)
  have v0: "be_value (replicate 32 0x00) = 0"
    by code_simp
  have vff: "be_value (replicate 32 0xff) \<ge> curve_p secp256k1"
    by code_simp
  have v1: "be_value (replicate 31 0x00 @ [0x01]) = 1"
    by code_simp
  have p1: "1 < curve_p secp256k1"
    by (simp add: secp256k1_def)
  from liftX_range_and_shape [OF b p, of "replicate 33 0x01"]
       liftX_range_and_shape [OF b p, of "replicate 32 0x00"]
       liftX_range_and_shape [OF b p, of "replicate 32 0xff"]
       liftX_range_and_shape [OF b p, of "replicate 31 0x00 @ [0x01]"]
       v0 vff v1 p1
  show ?thesis by simp
qed

section \<open>The recovered point is on the curve\<close>

text \<open>
  For a prime \<open>p\<close>, the \<open>p\<close>-th power of any integer is congruent to it modulo \<open>p\<close>: by
  induction, since \<open>p\<close> divides the binomial coefficients of \<open>(a + 1) ^ p\<close> other than
  the first and the last. So when \<open>p\<close> is 3 modulo 4 and \<open>a\<close> is congruent to a square
  \<open>r\<^sup>2\<close>, the square of \<open>a ^ ((p + 1) div 4)\<close> is congruent to \<open>r ^ (p + 1)\<close>, hence to \<open>a\<close>.
\<close>

lemma is_prime_dvd:
  assumes "is_prime p" and "d dvd p" and "0 < d"
  shows "d = 1 \<or> d = p"
proof (rule ccontr)
  assume neg: "\<not> (d = 1 \<or> d = p)"
  from assms have "1 < p" by (simp add: is_prime_def)
  with assms(2,3) have "d \<le> p" by (intro zdvd_imp_le) simp_all
  with neg assms(3) have "d \<in> {2..<p}" by simp
  with assms(1,2) show False by (simp add: is_prime_def)
qed

lemma is_prime_coprime:
  assumes "is_prime p" and "0 < k" and "k < nat p"
  shows "coprime (nat p) k"
proof (rule coprimeI)
  fix c assume c: "c dvd nat p" "c dvd k"
  from assms(1) have p: "1 < p" by (simp add: is_prime_def)
  from c(1) p have "0 < c" by (cases "c = 0") simp_all
  from c(1) p have "int c dvd p"
    by (metis int_dvd_int_iff int_nat_eq less_imp_le order_trans zero_le_one)
  with assms(1) \<open>0 < c\<close> have "int c = 1 \<or> int c = p"
    by (intro is_prime_dvd) simp_all
  moreover have "int c \<noteq> p"
  proof
    assume "int c = p"
    then have "c = nat p" by simp
    with c(2) assms(2) have "nat p \<le> k" by (simp add: dvd_imp_le)
    with assms(3) show False by simp
  qed
  ultimately show "is_unit c" by simp
qed

lemma is_prime_dvd_binomial:
  assumes "is_prime p" and "0 < k" and "k < nat p"
  shows "nat p dvd (nat p choose k)"
proof -
  have "k * (nat p choose k) = nat p * ((nat p - 1) choose (k - 1))"
    using assms(2) by (rule times_binomial_minus1_eq)
  then have "nat p dvd k * (nat p choose k)" by simp
  moreover have "coprime (nat p) k" using assms by (rule is_prime_coprime)
  ultimately show ?thesis
    by (simp add: coprime_dvd_mult_right_iff)
qed

lemma is_prime_power_Suc:
  assumes "is_prime p"
  shows "(Suc a) ^ nat p mod nat p = (a ^ nat p + 1) mod nat p"
proof -
  let ?q = "nat p"
  from assms have q: "1 < ?q" by (simp add: is_prime_def)
  let ?f = "\<lambda>k. (?q choose k) * a ^ k"
  have "(a + 1) ^ ?q = (\<Sum>k\<le>?q. of_nat (?q choose k) * a ^ k * 1 ^ (?q - k))"
    by (rule binomial_ring)
  then have "(Suc a) ^ ?q = (\<Sum>k\<le>?q. ?f k)"
    by simp
  also have "{..?q} = insert 0 (insert ?q {1..<?q})"
    using q by auto
  also have "(\<Sum>k\<in>insert 0 (insert ?q {1..<?q}). ?f k) = ?f 0 + (?f ?q + (\<Sum>k\<in>{1..<?q}. ?f k))"
    using q by simp
  finally have expand: "(Suc a) ^ ?q = (a ^ ?q + 1) + (\<Sum>k\<in>{1..<?q}. ?f k)"
    by simp
  have "?q dvd (\<Sum>k\<in>{1..<?q}. ?f k)"
  proof (rule dvd_sum)
    fix k assume "k \<in> {1..<?q}"
    then have "?q dvd (?q choose k)"
      using assms by (intro is_prime_dvd_binomial) simp_all
    then show "?q dvd ?f k" by simp
  qed
  then show ?thesis
    unfolding expand by (metis mod_add_right_eq dvd_eq_mod_eq_0 add.right_neutral)
qed

lemma fermat_nat:
  assumes "is_prime p"
  shows "a ^ nat p mod nat p = a mod nat p"
proof (induction a)
  case 0
  from assms have "0 < nat p" by (simp add: is_prime_def)
  then show ?case by (simp add: zero_power)
next
  case (Suc a)
  have "(Suc a) ^ nat p mod nat p = (a ^ nat p + 1) mod nat p"
    using assms by (rule is_prime_power_Suc)
  also have "\<dots> = (a ^ nat p mod nat p + 1) mod nat p"
    by (simp add: mod_Suc_eq)
  also have "\<dots> = (a mod nat p + 1) mod nat p"
    by (simp only: Suc.IH)
  also have "\<dots> = Suc a mod nat p"
    by (simp add: mod_Suc_eq)
  finally show ?case .
qed

lemma fermat_int:
  assumes "is_prime p"
  shows "r ^ nat p mod p = r mod p"
proof -
  from assms have p: "0 < p" by (simp add: is_prime_def)
  define a where "a = nat (r mod p)"
  have a: "int a = r mod p" using p by (simp add: a_def)
  have "r ^ nat p mod p = (r mod p) ^ nat p mod p"
    by (simp add: power_mod)
  also have "\<dots> = int (a ^ nat p) mod int (nat p)"
    using p by (simp add: a [symmetric])
  also have "\<dots> = int (a ^ nat p mod nat p)"
    by (simp only: zmod_int)
  also have "\<dots> = int (a mod nat p)"
    using assms by (simp only: fermat_nat)
  also have "\<dots> = int a mod int (nat p)"
    by (simp only: zmod_int)
  also have "\<dots> = r mod p"
    using p by (simp add: a)
  finally show ?thesis .
qed

lemma sqrt_of_residue:
  assumes prime: "is_prime p" and mod4: "p mod 4 = 3"
    and qr: "r * r mod p = a mod p"
  shows "(a ^ nat ((p + 1) div 4) mod p) * (a ^ nat ((p + 1) div 4) mod p) mod p = a mod p"
proof -
  let ?k = "nat ((p + 1) div 4)"
  from prime have p: "0 < p" by (simp add: is_prime_def)
  from mod4 have "p + 1 = 4 * ((p + 1) div 4)" by presburger
  with p have k: "4 * ?k = nat p + 1"
    by (simp add: nat_add_distrib nat_mult_distrib nat_eq_iff)
  have "(a ^ ?k mod p) * (a ^ ?k mod p) mod p = (a ^ ?k * a ^ ?k) mod p"
    by (simp add: mod_mult_eq)
  also have "\<dots> = a ^ (2 * ?k) mod p"
    by (simp add: power_add [symmetric] mult_2)
  also have "\<dots> = (a mod p) ^ (2 * ?k) mod p"
    by (simp add: power_mod)
  also have "\<dots> = (r * r mod p) ^ (2 * ?k) mod p"
    by (simp only: qr)
  also have "\<dots> = (r * r) ^ (2 * ?k) mod p"
    by (simp add: power_mod)
  also have "\<dots> = r ^ (4 * ?k) mod p"
    by (simp add: power_mult power2_eq_square [symmetric] flip: power_mult_distrib)
  also have "\<dots> = (r ^ nat p * r) mod p"
    by (simp only: k) (simp add: mult.commute)
  also have "\<dots> = (r ^ nat p mod p * r) mod p"
    by (simp add: mod_mult_left_eq)
  also have "\<dots> = (r mod p * r) mod p"
    using prime by (simp only: fermat_int)
  also have "\<dots> = r * r mod p"
    by (simp add: mod_mult_left_eq)
  finally show ?thesis using qr by simp
qed

lemma be_value_snoc: "be_value (bs @ [b]) = 256 * be_value bs + uint b"
  by (simp add: be_value_def)

lemma be_value_be_bytes:
  "0 \<le> v \<Longrightarrow> v < 256 ^ k \<Longrightarrow> be_value (be_bytes k v) = v"
proof (induction k arbitrary: v)
  case 0
  then show ?case by (simp add: be_bytes_def be_value_def)
next
  case (Suc k)
  from Suc.prems have "0 \<le> v div 256" and "v div 256 < 256 ^ k"
    by simp_all
  then have "be_value (be_bytes k (v div 256)) = v div 256"
    by (rule Suc.IH)
  moreover have "uint (word_of_int v :: byte) = v mod 256"
    by (simp add: uint_word_of_int)
  ultimately show ?case
    by (simp add: be_bytes_Suc be_value_snoc)
qed

text \<open>The secp256k1 constants have the shape that the next theorem asks of a curve;
  that its \<open>p\<close> is prime is not proved here.\<close>

lemma secp256k1_shape:
  "curve_p secp256k1 mod 4 = 3" "curve_p secp256k1 \<le> 2 ^ 256" "curve_b secp256k1 = 7"
  by (simp_all add: secp256k1_def)

text \<open>
  Claim C2. Let the curve have a prime \<open>p\<close> that is 3 modulo 4 and at most \<open>2 ^ 256\<close>,
  and \<open>b = 7\<close> (as secp256k1 has). For every 32-byte input whose big-endian value \<open>x\<close>
  satisfies \<open>0 < x < p\<close> and for which \<open>x\<^sup>3 + 7\<close> is a quadratic residue modulo \<open>p\<close> (it is
  congruent to \<open>r\<^sup>2\<close> for some \<open>r\<close>), \<open>liftX\<close> returns \<open>0x04 \<parallel> x \<parallel> y\<close>, where \<open>y\<close> is
  \<open>(x\<^sup>3 + 7) ^ ((p + 1) div 4) mod p\<close> on 32 bytes, big-endian, and
  \<open>y\<^sup>2 \<equiv> x\<^sup>3 + 7 (mod p)\<close>.
\<close>

theorem liftX_on_curve:
  assumes "is_prime (curve_p C)" and "curve_p C mod 4 = 3" and "curve_p C \<le> 2 ^ 256"
    and "curve_b C = 7"
    and "length xBytes = 32" and "0 < be_value xBytes" and "be_value xBytes < curve_p C"
    and "r * r mod curve_p C = (be_value xBytes ^ 3 + 7) mod curve_p C"
  shows "let x = be_value xBytes; p = curve_p C;
             y = (x ^ 3 + 7) ^ nat ((p + 1) div 4) mod p
         in liftX C xBytes = Inr (0x04 # xBytes @ be_bytes 32 y)
            \<and> be_value (be_bytes 32 y) = y
            \<and> y * y mod p = (x ^ 3 + 7) mod p"
proof -
  let ?x = "be_value xBytes" and ?p = "curve_p C"
  let ?y = "(?x ^ 3 + 7) ^ nat ((?p + 1) div 4) mod ?p"
  from assms(6,7) have p: "1 < ?p" by simp
  have "liftX C xBytes =
           Inr (0x04 # xBytes
                @ be_bytes 32 (((?x ^ 3 + curve_b C) mod ?p) ^ nat ((?p + 1) div 4) mod ?p))"
    using assms(5,6,7,3,4) by (intro liftX_in_range) simp_all
  then have lift: "liftX C xBytes = Inr (0x04 # xBytes @ be_bytes 32 ?y)"
    by (simp add: assms(4) power_mod)
  have "0 \<le> ?y" and "?y < ?p" using p by simp_all
  with assms(3) have "be_value (be_bytes 32 ?y) = ?y"
    by (intro be_value_be_bytes) simp_all
  moreover have "?y * ?y mod ?p = (?x ^ 3 + 7) mod ?p"
    using assms(1,2,8) by (rule sqrt_of_residue)
  ultimately show ?thesis
    using lift by (simp add: Let_def)
qed

theorem liftX_on_curve_witness:
  "liftX example_curve (replicate 31 0x00 @ [0x01])
     = Inr (0x04 # (replicate 31 0x00 @ [0x01]) @ be_bytes 32 76)
   \<and> be_value (be_bytes 32 76) = 76
   \<and> (76 * 76 :: int) mod 103 = (1 ^ 3 + 7) mod 103"
proof -
  have 1: "is_prime (curve_p example_curve)" by code_simp
  have 2: "curve_p example_curve mod 4 = 3" by (simp add: example_curve_def)
  have 3: "curve_p example_curve \<le> 2 ^ 256" by (simp add: example_curve_def)
  have 4: "curve_b example_curve = 7" by (simp add: example_curve_def)
  have 5: "length (replicate 31 (0x00 :: byte) @ [0x01]) = 32" by simp
  have v: "be_value (replicate 31 0x00 @ [0x01]) = 1" by code_simp
  have 6: "0 < be_value (replicate 31 0x00 @ [0x01])" by (simp add: v)
  have 7: "be_value (replicate 31 0x00 @ [0x01]) < curve_p example_curve"
    by (simp add: v example_curve_def)
  have 8: "27 * 27 mod curve_p example_curve
             = (be_value (replicate 31 0x00 @ [0x01]) ^ 3 + 7) mod curve_p example_curve"
    by (simp add: v example_curve_def)
  have y: "(8 :: int) ^ 26 mod 103 = 76" by simp
  from liftX_on_curve [OF 1 2 3 4 5 6 7 8] show ?thesis
    by (simp add: v example_curve_def Let_def y)
qed

section \<open>The conversions between bytes and secret\<close>

text \<open>
  \<open>toSecret\<close> computes the big-endian value of the bytes, and \<open>toBytes\<close> the big-endian
  encoding of the secret on 32 bytes, when \<open>isPrivate\<close> accepts it: on secrets from \<open>0\<close>
  up to \<open>2 ^ 256 - 1\<close> the two are inverse. They are exact; the constructor does not reach
  them.
\<close>

lemma push_bit_8_or: "push_bit 8 acc OR uint (b :: byte) = 256 * acc + uint b"
proof -
  have "push_bit 8 acc AND uint b = 0"
  proof (rule bit_eqI)
    fix n
    have "\<not> (8 \<le> n \<and> bit b n)"
      using bit_imp_le_length [of b n] by auto
    then show "bit (push_bit 8 acc AND uint b) n \<longleftrightarrow> bit (0 :: int) n"
      by (auto simp: bit_simps)
  qed
  then have "push_bit 8 acc + uint b = push_bit 8 acc OR uint b"
    by (rule disjunctive_add_eq_or)
  then show ?thesis
    by (simp add: push_bit_eq_mult)
qed

lemma toSecret_be_value: "toSecret bs = be_value bs"
  by (simp add: toSecret_def be_value_def push_bit_8_or)

lemma word_of_int_and_255: "(word_of_int (k AND 0xff) :: byte) = word_of_int k"
proof -
  have "(0xff :: int) = mask 8" by (simp add: mask_eq_exp_minus_1)
  then have "k AND 0xff = take_bit 8 k" by (simp add: take_bit_eq_mask)
  then show ?thesis by (simp add: word_of_int_eq_iff)
qed

lemma toBytes_be_bytes:
  "toBytes isPrivate s =
     (if isPrivate (be_bytes 32 s) then Inr (be_bytes 32 s)
      else Inl (PrivateKeyError ''Invalid private key: secret out of valid range''
                  SET_PRIVATE_KEY_ERROR))"
proof -
  have "map (\<lambda>i. word_of_int (drop_bit (8 * (31 - i)) s AND 0xff) :: byte) [0..<32]
          = be_bytes 32 s"
    unfolding be_bytes_def word_of_int_and_255
    by (simp add: drop_bit_eq_div power_mult)
  then show ?thesis
    by (simp add: toBytes_def Let_def)
qed

lemma toSecret_toBytes:
  assumes "0 \<le> s" and "s < 2 ^ 256" and "isPrivate (be_bytes 32 s)"
  shows "toBytes isPrivate s = Inr (be_bytes 32 s)" and "toSecret (be_bytes 32 s) = s"
  using assms by (simp_all add: toBytes_be_bytes toSecret_be_value be_value_be_bytes)

end
